theory Spec2Isabelle
  imports Main "HOL-Library.Word" "HOL-Library.Char_ord" "HOL-Library.List_Lexorder"
    "HOL-Library.Sublist"
begin

section \<open>Strings and path utilities\<close>

text \<open>
  A \<open>std::string\<close> is a \<^typ>\<open>string\<close> (a list of bytes). \<open>operator<\<close> on
  \<open>std::string\<close> is the lexicographic order on unsigned bytes, which is the order of
  \<open>HOL-Library.List_Lexorder\<close> over \<open>HOL-Library.Char_ord\<close>.
\<close>

definition backslash :: char where
  "backslash = CHR 0x5C"

text \<open>\<open>::tolower\<close> in the "C" locale: only the letters A to Z change.\<close>

definition tolower :: "char \<Rightarrow> char" where
  "tolower c = (if CHR ''A'' \<le> c \<and> c \<le> CHR ''Z'' then char_of (of_char c + (32::nat)) else c)"

text \<open>\<open>std::string::find_last_of(chars)\<close>: the last index holding one of \<open>chars\<close>,
  \<open>None\<close> for \<open>npos\<close>.\<close>

fun find_last_of :: "string \<Rightarrow> string \<Rightarrow> nat option" where
  "find_last_of [] chars = None"
| "find_last_of (c # s) chars =
     (case find_last_of s chars of
        Some pos \<Rightarrow> Some (Suc pos)
      | None \<Rightarrow> if c \<in> set chars then Some 0 else None)"

definition basename :: "string \<Rightarrow> string" where
  "basename path =
     (case find_last_of path [CHR ''/'', backslash] of
        Some pos \<Rightarrow> drop (pos + 1) path
      | None \<Rightarrow> path)"

definition combine :: "string list \<Rightarrow> string" where
  "combine pathComponentsList =
     (let outString = concat (map (\<lambda>pathComponent. pathComponent @ ''/'')
                                  (filter (\<lambda>pathComponent. pathComponent \<noteq> []) pathComponentsList))
      in if length outString = 0 then outString else take (length outString - 1) outString)"

text \<open>
  \<open>replaceAll(s, search, replace)\<close>: scan from the left, replace each occurrence of
  \<open>search\<close> and go on behind the inserted text. Every call in the program passes a
  non-empty \<open>search\<close> (the two-backslash literal, or a folder name followed by a
  slash); with an empty one the source loop never ends, and the equation below is then
  not a model of it.
\<close>

fun replaceAll :: "string \<Rightarrow> string \<Rightarrow> string \<Rightarrow> string" where
  "replaceAll [] search replace = []"
| "replaceAll (c # s) search replace =
     (if search \<noteq> [] \<and> prefix search (c # s)
      then replace @ replaceAll (drop (length search) (c # s)) search replace
      else c # replaceAll s search replace)"

section \<open>Data model\<close>

datatype FileType = RegularFile | CompressedFile | StoredFile

text \<open>\<open>unz_file_pos\<close>: the position of an entry in the archive's directory.\<close>

type_synonym unz_file_pos = nat

text \<open>
  \<open>size_t\<close> and \<open>long\<close> are words of the same width \<open>'w\<close> (32 or 64 bits on the
  targets of the program). The field \<open>size\<close> is named \<open>size'\<close> here.
\<close>

record (overloaded) ('w::len) FileRecord =
  filename :: string
  fileType :: FileType
  size' :: "'w word"
  languageId :: string
  category :: string
  filePath :: string
  relativePath :: string
  zipFilePath :: string
  zipFilePos :: unz_file_pos

text \<open>
  A \<open>std::vector<FileRecord>\<close>: the address of its buffer (0 while it has none), its
  elements, and the number of elements that the buffer has room for.
\<close>

record (overloaded) ('w::len) FileRecordList =
  buffer :: nat
  elems :: "'w FileRecord list"
  capacity :: nat

text \<open>
  A \<open>FileRecord*\<close> points to an element of one of the vectors of the record store:
  it is the address of the vector's buffer and the index of the element. The model
  keeps the key of the vector with the pointer, so that the vector can be looked up.
  While the resolver and its callers run, the record store does not change; there a
  pointer is written together with the record that it points to.
\<close>

record FileRecord_ptr =
  vector_key :: string
  buffer_address :: nat
  element_index :: nat

type_synonym 'w FileRecord_ref = "FileRecord_ptr \<times> 'w FileRecord"

text \<open>
  \<open>FILE*\<close> and \<open>unzFile\<close> are handle numbers, \<open>None\<close> for a null or unset pointer.
  \<open>int\<close> is a 32-bit word. The field \<open>file\<close> is named \<open>file'\<close>.
\<close>

record StreamRecord =
  fileRecord :: FileRecord_ptr
  randomValue :: "32 word"
  file' :: "nat option"
  zipFile :: "nat option"

text \<open>
  The two overlay tables are \<open>std::map\<close>s that the program iterates, so they are
  association lists kept in key order; the record store and the open-stream table are
  only searched, so they are maps. The manager's own \<open>languageId\<close> is named
  \<open>languageId'\<close>. The last field, \<open>next_address\<close>, is not a member of the class:
  it is the state of the allocator, the first address that no buffer of a vector has
  had yet. An address is handed out once and never again, so that a pointer into a
  buffer that has been freed is told from a pointer into a live one.
\<close>

type_synonym string_map = "(string \<times> string) list"

fun map_assign :: "string \<Rightarrow> string \<Rightarrow> string_map \<Rightarrow> string_map" where
  "map_assign k v [] = [(k, v)]"
| "map_assign k v ((k', v') # m) =
     (if k < k' then (k, v) # (k', v') # m
      else if k = k' then (k, v) # m
      else (k', v') # map_assign k v m)"

definition map_find :: "string_map \<Rightarrow> string \<Rightarrow> string option" where
  "map_find m k = map_of m k"

record (overloaded) ('w::len) ResourcesManagerImpl =
  enableTrace :: bool
  rootFoldersList :: "string list"
  filenameToRecordMap :: "string \<rightharpoonup> 'w FileRecordList"
  languageId' :: string
  relativeFolderToLanguageIdMap :: string_map
  relativeFolderToCategoryMap :: string_map
  enabledCategories :: "string set"
  openStreams :: "32 word \<rightharpoonup> StreamRecord"
  searchByRelativePaths :: bool
  searchRootsList :: "string list"
  next_address :: nat

section \<open>Configuration methods\<close>

definition reset :: "'w::len ResourcesManagerImpl \<Rightarrow> 'w ResourcesManagerImpl" where
  "reset s = s\<lparr>enableTrace := False,
               rootFoldersList := [],
               filenameToRecordMap := Map.empty,
               languageId' := [],
               relativeFolderToLanguageIdMap := [],
               relativeFolderToCategoryMap := [],
               enabledCategories := {},
               searchByRelativePaths := False,
               searchRootsList := [[]]\<rparr>"

text \<open>The constructor: a value-initialised implementation object, then \<open>reset()\<close>.
  Address 0 is the null pointer, so the first buffer gets the address 1.\<close>

definition ResourcesManager :: "'w::len ResourcesManagerImpl" where
  "ResourcesManager =
     reset \<lparr>enableTrace = False, rootFoldersList = [], filenameToRecordMap = Map.empty,
            languageId' = [], relativeFolderToLanguageIdMap = [],
            relativeFolderToCategoryMap = [], enabledCategories = {},
            openStreams = Map.empty, searchByRelativePaths = False, searchRootsList = [],
            next_address = 1\<rparr>"

definition addLanguageFolder ::
  "string \<Rightarrow> string \<Rightarrow> 'w::len ResourcesManagerImpl \<Rightarrow> 'w ResourcesManagerImpl" where
  "addLanguageFolder lang languageFolder s =
     s\<lparr>relativeFolderToLanguageIdMap :=
         map_assign languageFolder lang (relativeFolderToLanguageIdMap s)\<rparr>"

definition setCurrentLanguage ::
  "string \<Rightarrow> 'w::len ResourcesManagerImpl \<Rightarrow> 'w ResourcesManagerImpl" where
  "setCurrentLanguage lang s = s\<lparr>languageId' := lang\<rparr>"

definition addCategoryFolder ::
  "string \<Rightarrow> string \<Rightarrow> 'w::len ResourcesManagerImpl \<Rightarrow> 'w ResourcesManagerImpl" where
  "addCategoryFolder cat categoryFolder s =
     s\<lparr>relativeFolderToCategoryMap :=
         map_assign categoryFolder cat (relativeFolderToCategoryMap s)\<rparr>"

definition enableCategory ::
  "string \<Rightarrow> 'w::len ResourcesManagerImpl \<Rightarrow> 'w ResourcesManagerImpl" where
  "enableCategory cat s = s\<lparr>enabledCategories := insert cat (enabledCategories s)\<rparr>"

definition disableCategory ::
  "string \<Rightarrow> 'w::len ResourcesManagerImpl \<Rightarrow> 'w ResourcesManagerImpl" where
  "disableCategory cat s = s\<lparr>enabledCategories := enabledCategories s - {cat}\<rparr>"

definition setSearchByRelativePaths ::
  "bool \<Rightarrow> 'w::len ResourcesManagerImpl \<Rightarrow> 'w ResourcesManagerImpl" where
  "setSearchByRelativePaths b s = s\<lparr>searchByRelativePaths := b\<rparr>"

definition addSearchRoot ::
  "string \<Rightarrow> 'w::len ResourcesManagerImpl \<Rightarrow> 'w ResourcesManagerImpl" where
  "addSearchRoot searchRoot s =
     (let canonicalSearchRoot = replaceAll searchRoot [backslash, backslash] ''/''
      in s\<lparr>searchRootsList := searchRootsList s @ [canonicalSearchRoot]\<rparr>)"

section \<open>Keys and the resolver\<close>

definition makeKey :: "'w::len ResourcesManagerImpl \<Rightarrow> string \<Rightarrow> string" where
  "makeKey s name =
     (let key = (if searchByRelativePaths s then name else basename name);
          key = map tolower key;
          key = replaceAll key [backslash, backslash] ''/''
      in map (\<lambda>c. if c = backslash then CHR ''/'' else c) key)"

text \<open>The comparator handed to the candidate set, a set of \<open>FileRecord*\<close>.\<close>

definition candidatesOrder :: "'w::len FileRecord_ref \<Rightarrow> 'w FileRecord_ref \<Rightarrow> bool" where
  "candidatesOrder rec1 rec2 =
     (category (snd rec1) > category (snd rec2) \<or> languageId (snd rec1) > languageId (snd rec2))"

text \<open>
  \<open>std::set\<close> is the red-black tree of libc++ (the program calls \<open>arc4random\<close>,
  so it is built for a BSD or Apple system). A node has its colour \<open>__is_black_\<close>,
  its left subtree, its value and its right subtree.
\<close>

datatype 'a tree = Leaf | Node bool "'a tree" 'a "'a tree"

text \<open>
  \<open>insert\<close> descends with the comparator (\<open>__find_equal\<close>): to the left when the
  new value compares below the node's, to the right when the node's compares below the
  new one, and it inserts nothing when neither is the case. Where the descent falls
  off the tree the new node is linked in, and \<open>__tree_balance_after_insert\<close> walks
  up from it with the variable \<open>x\<close>. On the way back up the result of the insertion
  into a subtree is one of: the loop has ended; \<open>x\<close> is the root of the subtree (and
  red); or \<open>x\<close> is the left (\<open>True\<close>) or right child of the root of the subtree and
  that root, the parent of \<open>x\<close>, is red.
\<close>

datatype 'a balance = Finished "'a tree" | X_is_root "'a tree" | X_is_child bool "'a tree"

fun tree_of :: "'a balance \<Rightarrow> 'a tree" where
  "tree_of (Finished t) = t"
| "tree_of (X_is_root t) = t"
| "tree_of (X_is_child x_left t) = t"

fun set_black :: "bool \<Rightarrow> 'a tree \<Rightarrow> 'a tree" where
  "set_black b Leaf = Leaf"
| "set_black b (Node c l a r) = Node b l a r"

text \<open>
  One round of the loop of \<open>__tree_balance_after_insert\<close>, seen from the node with
  colour \<open>c\<close>, value \<open>a\<close> and right subtree \<open>r\<close> whose left subtree was inserted
  into. When \<open>x\<close> is the left child, the loop ends if this node, the parent of \<open>x\<close>,
  is black. When \<open>x\<close> is a grandchild, this node is the grandparent and \<open>r\<close> is the
  uncle \<open>y\<close>: a red uncle is made black together with the parent, this node becomes
  red and is the next \<open>x\<close>; otherwise the parent is rotated to the left if \<open>x\<close> is
  its right child, the node that is then the parent becomes black, this node becomes
  red and is rotated to the right, and the loop ends. (The root is set black after the
  loop, in \<open>set_insert\<close>.)
\<close>

fun balance_left :: "'a balance \<Rightarrow> bool \<Rightarrow> 'a \<Rightarrow> 'a tree \<Rightarrow> 'a balance" where
  "balance_left (Finished l) c a r = Finished (Node c l a r)"
| "balance_left (X_is_root l) c a r =
     (if c then Finished (Node c l a r) else X_is_child True (Node c l a r))"
| "balance_left (X_is_child x_left l) c a (Node False yl ya yr) =
     X_is_root (Node False (set_black True l) a (Node True yl ya yr))"
| "balance_left (X_is_child True (Node pc pl pa pr)) c a r =
     Finished (Node True pl pa (Node False pr a r))"
| "balance_left (X_is_child False (Node pc pl pa (Node xc xl xa xr))) c a r =
     Finished (Node True (Node pc pl pa xl) xa (Node False xr a r))"
| "balance_left (X_is_child x_left l) c a r = Finished (Node c l a r)"

text \<open>The same for a node whose right subtree was inserted into.\<close>

fun balance_right :: "bool \<Rightarrow> 'a tree \<Rightarrow> 'a \<Rightarrow> 'a balance \<Rightarrow> 'a balance" where
  "balance_right c l a (Finished r) = Finished (Node c l a r)"
| "balance_right c l a (X_is_root r) =
     (if c then Finished (Node c l a r) else X_is_child False (Node c l a r))"
| "balance_right c (Node False yl ya yr) a (X_is_child x_left r) =
     X_is_root (Node False (Node True yl ya yr) a (set_black True r))"
| "balance_right c l a (X_is_child False (Node pc pl pa pr)) =
     Finished (Node True (Node False l a pl) pa pr)"
| "balance_right c l a (X_is_child True (Node pc (Node xc xl xa xr) pa pr)) =
     Finished (Node True (Node False l a xl) xa (Node pc xr pa pr))"
| "balance_right c l a (X_is_child x_left r) = Finished (Node c l a r)"

fun insert_node :: "('a \<Rightarrow> 'a \<Rightarrow> bool) \<Rightarrow> 'a \<Rightarrow> 'a tree \<Rightarrow> 'a balance" where
  "insert_node cmp v Leaf = X_is_root (Node False Leaf v Leaf)"
| "insert_node cmp v (Node c l a r) =
     (if cmp v a then balance_left (insert_node cmp v l) c a r
      else if cmp a v then balance_right c l a (insert_node cmp v r)
      else Finished (Node c l a r))"

text \<open>
  \<open>std::set::insert\<close>. When \<open>x\<close> arrives at the root, the root is made black. (The
  parent of \<open>x\<close> is never a red root, because the root is always black.) \<open>begin()\<close>
  is the leftmost node.
\<close>

definition set_insert :: "('a \<Rightarrow> 'a \<Rightarrow> bool) \<Rightarrow> 'a \<Rightarrow> 'a tree \<Rightarrow> 'a tree" where
  "set_insert cmp v t =
     (case insert_node cmp v t of
        Finished t' \<Rightarrow> t'
      | X_is_root t' \<Rightarrow> set_black True t'
      | X_is_child x_left t' \<Rightarrow> t')"

fun set_begin :: "'a tree \<Rightarrow> 'a option" where
  "set_begin Leaf = None"
| "set_begin (Node c l a r) = (case set_begin l of None \<Rightarrow> Some a | Some b \<Rightarrow> Some b)"

text \<open>The admissibility test of the inner loop of \<open>findFileRecord\<close>.\<close>

definition admissible :: "'w::len ResourcesManagerImpl \<Rightarrow> 'w FileRecord \<Rightarrow> bool" where
  "admissible s fr =
     ((languageId' s = [] \<or> languageId fr = languageId' s) \<and>
      (category fr = [] \<or> category fr \<in> enabledCategories s))"

text \<open>The elements of the vector that is stored under a key, each with its
  address; and the inner loop of \<open>findFileRecord\<close> over them.\<close>

definition element_refs :: "string \<Rightarrow> 'w::len FileRecordList \<Rightarrow> 'w FileRecord_ref list" where
  "element_refs key v =
     map (\<lambda>i. (\<lparr>vector_key = key, buffer_address = buffer v, element_index = i\<rparr>, elems v ! i))
         [0..<length (elems v)]"

definition insertCandidates ::
  "'w::len ResourcesManagerImpl \<Rightarrow> 'w FileRecord_ref list \<Rightarrow> 'w FileRecord_ref tree \<Rightarrow>
     'w FileRecord_ref tree" where
  "insertCandidates s refs candidatesList =
     fold (\<lambda>ref cands.
             if admissible s (snd ref) then set_insert candidatesOrder ref cands else cands)
          refs candidatesList"

text \<open>The loop over the search roots, with its \<open>continue\<close> and \<open>break\<close>.\<close>

fun searchRoots ::
  "'w::len ResourcesManagerImpl \<Rightarrow> string \<Rightarrow> string list \<Rightarrow> 'w FileRecord_ref tree \<Rightarrow>
     'w FileRecord_ref tree" where
  "searchRoots s key [] candidatesList = candidatesList"
| "searchRoots s key (searchRoot # roots) candidatesList =
     (case filenameToRecordMap s (makeKey s (combine [searchRoot, key])) of
        None \<Rightarrow> searchRoots s key roots candidatesList
      | Some v \<Rightarrow>
          if length (elems v) = 0 then searchRoots s key roots candidatesList
          else let candidatesList =
                     insertCandidates s (element_refs (makeKey s (combine [searchRoot, key])) v)
                       candidatesList
               in if candidatesList \<noteq> Leaf then candidatesList
                  else searchRoots s key roots candidatesList)"

definition findFileRecord :: "'w::len ResourcesManagerImpl \<Rightarrow> string \<Rightarrow> 'w FileRecord_ref option" where
  "findFileRecord s name =
     (let key = makeKey s name;
          candidatesList = searchRoots s key (searchRootsList s) Leaf
      in set_begin candidatesList)"

definition exists :: "'w::len ResourcesManagerImpl \<Rightarrow> string \<Rightarrow> bool" where
  "exists s name = (findFileRecord s name \<noteq> None)"

definition getSize :: "'w::len ResourcesManagerImpl \<Rightarrow> string \<Rightarrow> 'w word" where
  "getSize s name =
     (case findFileRecord s name of None \<Rightarrow> 0 | Some (ptr, fr) \<Rightarrow> size' fr)"

section \<open>Indexing a directory tree\<close>

text \<open>
  What \<open>opendir\<close> and \<open>readdir\<close> deliver: an entry is a directory (\<open>d_type = DT_DIR\<close>)
  with the result of opening it (\<open>None\<close> when \<open>opendir\<close> fails), or anything else.
  The listing of a folder is what \<open>opendir\<close> of the root folder joined with the
  relative folder yields, in the order of \<open>readdir\<close>. \<open>stat\<close> is a function from a
  path to the file's size, \<open>None\<close> when it fails. What \<open>traceFileRecord\<close> prints when
  the trace is enabled is not modelled.
\<close>

datatype dirent = Dir string "dirent list option" | NotDir string

text \<open>\<open>getFileSize\<close> returns a \<open>long\<close>: the size, or \<open>-1\<close>.\<close>

definition getFileSize :: "(string \<Rightarrow> int option) \<Rightarrow> string \<Rightarrow> 'w::len word" where
  "getFileSize stat path = (case stat path of Some st_size \<Rightarrow> word_of_int st_size | None \<Rightarrow> - 1)"

text \<open>
  \<open>std::vector::push_back\<close>: when the buffer is full, the elements move to a new
  buffer of twice the capacity (at least one element) and the old buffer is freed;
  \<open>next_free\<close> is the allocator's next address. And
  \<open>filenameToRecordMap[key].push_back(fileRecord)\<close>, where \<open>operator[]\<close> makes an
  empty vector when the key is new.
\<close>

definition vector_push_back ::
  "'w::len FileRecord \<Rightarrow> 'w FileRecordList \<Rightarrow> nat \<Rightarrow> 'w FileRecordList \<times> nat" where
  "vector_push_back x v next_free =
     (if length (elems v) < capacity v then (v\<lparr>elems := elems v @ [x]\<rparr>, next_free)
      else (\<lparr>buffer = next_free, elems = elems v @ [x],
             capacity = max (2 * capacity v) (length (elems v) + 1)\<rparr>, next_free + 1))"

definition push_back_record ::
  "string \<Rightarrow> 'w::len FileRecord \<Rightarrow> 'w ResourcesManagerImpl \<Rightarrow> 'w ResourcesManagerImpl" where
  "push_back_record key fr s =
     (let v = (case filenameToRecordMap s key of
                 None \<Rightarrow> \<lparr>buffer = 0, elems = [], capacity = 0\<rparr>
               | Some v \<Rightarrow> v);
          (v', next_free) = vector_push_back fr v (next_address s)
      in s\<lparr>filenameToRecordMap := (filenameToRecordMap s)(key \<mapsto> v'),
           next_address := next_free\<rparr>)"

definition hidden :: "string \<Rightarrow> bool" where
  "hidden name = (case name of [] \<Rightarrow> False | c # _ \<Rightarrow> c = CHR ''.'')"

fun addFolderRecursive ::
  "(string \<Rightarrow> int option) \<Rightarrow> string \<Rightarrow> string \<Rightarrow> string \<Rightarrow> string \<Rightarrow> string \<Rightarrow>
     dirent list option \<Rightarrow> 'w::len ResourcesManagerImpl \<Rightarrow> 'w ResourcesManagerImpl"
and readdir_loop ::
  "(string \<Rightarrow> int option) \<Rightarrow> string \<Rightarrow> string \<Rightarrow> string \<Rightarrow> string \<Rightarrow> string \<Rightarrow>
     dirent list \<Rightarrow> 'w::len ResourcesManagerImpl \<Rightarrow> 'w ResourcesManagerImpl"
and loop_body ::
  "(string \<Rightarrow> int option) \<Rightarrow> string \<Rightarrow> string \<Rightarrow> string \<Rightarrow> string \<Rightarrow> string \<Rightarrow>
     dirent \<Rightarrow> 'w::len ResourcesManagerImpl \<Rightarrow> 'w ResourcesManagerImpl"
where
  "addFolderRecursive stat rootFolder relativeFolder relativeFolderInMap lang cat None s = s"
| "addFolderRecursive stat rootFolder relativeFolder relativeFolderInMap lang cat (Some dp) s =
     readdir_loop stat rootFolder relativeFolder relativeFolderInMap lang cat dp s"
| "readdir_loop stat rootFolder relativeFolder relativeFolderInMap lang cat [] s = s"
| "readdir_loop stat rootFolder relativeFolder relativeFolderInMap lang cat (ep # rest) s =
     readdir_loop stat rootFolder relativeFolder relativeFolderInMap lang cat rest
       (loop_body stat rootFolder relativeFolder relativeFolderInMap lang cat ep s)"
| "loop_body stat rootFolder relativeFolder relativeFolderInMap lang cat (Dir name dp) s =
     (if hidden name then s
      else
        let newRelativeFolder = combine [relativeFolder, name];
            newLanguageId =
              (case map_find (relativeFolderToLanguageIdMap s) newRelativeFolder of
                 Some l \<Rightarrow> l | None \<Rightarrow> lang);
            (newCategory, newRelativeFolderInMap) =
              (case map_find (relativeFolderToCategoryMap s) name of
                 Some c \<Rightarrow> (c, relativeFolderInMap)
               | None \<Rightarrow> (cat, combine [relativeFolderInMap, name]))
        in addFolderRecursive stat rootFolder newRelativeFolder newRelativeFolderInMap
             newLanguageId newCategory dp s)"
| "loop_body stat rootFolder relativeFolder relativeFolderInMap lang cat (NotDir name) s =
     (if hidden name then s
      else
        let rel = combine [relativeFolder, name];
            path = combine [rootFolder, rel];
            fr = \<lparr>filename = name, fileType = RegularFile, size' = getFileSize stat path,
                  languageId = lang, category = cat, filePath = path, relativePath = rel,
                  zipFilePath = [], zipFilePos = 0\<rparr>;
            key = makeKey s (combine [relativeFolderInMap, name])
        in push_back_record key fr s)"

definition addRootFolder ::
  "(string \<Rightarrow> int option) \<Rightarrow> dirent list option \<Rightarrow> string \<Rightarrow>
     'w::len ResourcesManagerImpl \<Rightarrow> 'w ResourcesManagerImpl" where
  "addRootFolder stat dp rootFolder s =
     addFolderRecursive stat rootFolder [] [] [] [] dp
       (s\<lparr>rootFoldersList := rootFoldersList s @ [rootFolder]\<rparr>)"

section \<open>The zip reader and the C file streams\<close>

text \<open>
  The archive reader and \<open>stdio\<close> are collaborators of the program; they are modelled
  by what the program can observe of them. An archive is its directory: the entries in
  order, each a name and an uncompressed size, or a directory record that cannot be
  read. Contents of buffers are not modelled, only byte counts.
\<close>

datatype zip_item = ZEntry string nat | ZBroken

record unz_s =
  central_dir :: "zip_item list"
  num_file :: nat
  current_file_ok :: bool
  entry_read_pos :: "nat option"

datatype 'a unz_result = UNZ_OK 'a | UNZ_END_OF_LIST_OF_FILE | UNZ_ERROR

definition unz_goto :: "nat \<Rightarrow> unz_s \<Rightarrow> unz_s" where
  "unz_goto i u =
     u\<lparr>num_file := i,
       current_file_ok := (i < length (central_dir u) \<and> central_dir u ! i \<noteq> ZBroken)\<rparr>"

definition unz_current :: "unz_s \<Rightarrow> (string \<times> nat) unz_result" where
  "unz_current u =
     (if current_file_ok u \<and> num_file u < length (central_dir u)
      then (case central_dir u ! num_file u of
              ZEntry name sz \<Rightarrow> UNZ_OK (name, sz)
            | ZBroken \<Rightarrow> UNZ_ERROR)
      else UNZ_ERROR)"

definition unzGoToFirstFile2 :: "unz_s \<Rightarrow> (string \<times> nat) unz_result \<times> unz_s" where
  "unzGoToFirstFile2 u = (let u' = unz_goto 0 u in (unz_current u', u'))"

definition unzGoToNextFile2 :: "unz_s \<Rightarrow> (string \<times> nat) unz_result \<times> unz_s" where
  "unzGoToNextFile2 u =
     (if \<not> current_file_ok u then (UNZ_END_OF_LIST_OF_FILE, u)
      else if num_file u + 1 = length (central_dir u) then (UNZ_END_OF_LIST_OF_FILE, u)
      else let u' = unz_goto (num_file u + 1) u in (unz_current u', u'))"

definition unzGetFilePos :: "unz_s \<Rightarrow> unz_file_pos unz_result" where
  "unzGetFilePos u = (if \<not> current_file_ok u then UNZ_END_OF_LIST_OF_FILE else UNZ_OK (num_file u))"

definition unzGoToFilePos :: "unz_s \<Rightarrow> unz_file_pos \<Rightarrow> unit unz_result \<times> unz_s" where
  "unzGoToFilePos u pos =
     (let u' = unz_goto pos u in (if current_file_ok u' then UNZ_OK () else UNZ_ERROR, u'))"

definition unzOpenCurrentFile :: "unz_s \<Rightarrow> unit unz_result \<times> unz_s" where
  "unzOpenCurrentFile u =
     (if \<not> current_file_ok u then (UNZ_ERROR, u) else (UNZ_OK (), u\<lparr>entry_read_pos := Some 0\<rparr>))"

text \<open>\<open>unzReadCurrentFile\<close> returns an \<open>int\<close>: the byte count, or a negative code
  (\<open>UNZ_PARAMERROR\<close> is \<open>-102\<close>) when no entry is open.\<close>

definition unzReadCurrentFile :: "unz_s \<Rightarrow> nat \<Rightarrow> 32 word \<times> unz_s" where
  "unzReadCurrentFile u len =
     (case (entry_read_pos u, unz_current u) of
        (Some pos, UNZ_OK (name, sz)) \<Rightarrow>
          (let n = min len (sz - pos) in (word_of_nat n, u\<lparr>entry_read_pos := Some (pos + n)\<rparr>))
      | _ \<Rightarrow> (- 102, u))"

definition unzCloseCurrentFile :: "unz_s \<Rightarrow> unz_s" where
  "unzCloseCurrentFile u = u\<lparr>entry_read_pos := None\<rparr>"

record FILE_s =
  file_length :: nat
  file_pos :: nat

text \<open>
  The world outside the manager: the regular files that \<open>fopen\<close> can open (by path,
  with their length), the archives that \<open>unzOpen\<close> can open, and the handles that are
  open at the moment.
\<close>

record world =
  disk_files :: "string \<rightharpoonup> nat"
  disk_zips :: "string \<rightharpoonup> zip_item list"
  open_FILEs :: "nat \<rightharpoonup> FILE_s"
  open_unzFiles :: "nat \<rightharpoonup> unz_s"
  next_handle :: nat

definition fopen :: "world \<Rightarrow> string \<Rightarrow> nat option \<times> world" where
  "fopen w path =
     (case disk_files w path of
        None \<Rightarrow> (None, w)
      | Some len \<Rightarrow>
          (Some (next_handle w),
           w\<lparr>open_FILEs := (open_FILEs w)(next_handle w \<mapsto> \<lparr>file_length = len, file_pos = 0\<rparr>),
             next_handle := next_handle w + 1\<rparr>))"

definition fread :: "world \<Rightarrow> nat \<Rightarrow> nat \<Rightarrow> nat \<times> world" where
  "fread w f n =
     (case open_FILEs w f of
        None \<Rightarrow> (0, w)
      | Some fs \<Rightarrow>
          (let k = min n (file_length fs - file_pos fs)
           in (k, w\<lparr>open_FILEs := (open_FILEs w)(f \<mapsto> fs\<lparr>file_pos := file_pos fs + k\<rparr>)\<rparr>)))"

definition fclose :: "world \<Rightarrow> nat \<Rightarrow> 32 word \<times> world" where
  "fclose w f = (0, w\<lparr>open_FILEs := (open_FILEs w)(f := None)\<rparr>)"

definition unzOpen :: "world \<Rightarrow> string \<Rightarrow> nat option \<times> world" where
  "unzOpen w path =
     (case disk_zips w path of
        None \<Rightarrow> (None, w)
      | Some dir \<Rightarrow>
          (Some (next_handle w),
           w\<lparr>open_unzFiles := (open_unzFiles w)(next_handle w \<mapsto>
                 unz_goto 0 \<lparr>central_dir = dir, num_file = 0, current_file_ok = False,
                             entry_read_pos = None\<rparr>),
             next_handle := next_handle w + 1\<rparr>))"

definition unzClose :: "world \<Rightarrow> nat \<Rightarrow> world" where
  "unzClose w z = w\<lparr>open_unzFiles := (open_unzFiles w)(z := None)\<rparr>"

text \<open>The state behind an open \<open>unzFile\<close>, and storing it back.\<close>

definition unz_state :: "world \<Rightarrow> nat \<Rightarrow> unz_s" where
  "unz_state w z =
     (case open_unzFiles w z of
        Some u \<Rightarrow> u
      | None \<Rightarrow> \<lparr>central_dir = [], num_file = 0, current_file_ok = False, entry_read_pos = None\<rparr>)"

definition unz_store :: "world \<Rightarrow> nat \<Rightarrow> unz_s \<Rightarrow> world" where
  "unz_store w z u =
     (if open_unzFiles w z = None then w else w\<lparr>open_unzFiles := (open_unzFiles w)(z \<mapsto> u)\<rparr>)"

section \<open>Indexing an archive\<close>

text \<open>What the program throws: \<open>std::exception\<close>, and the \<open>std::bad_alloc\<close> of a
  failed \<open>new\<close>.\<close>

datatype exception = std_exception | bad_alloc

text \<open>\<open>s.find(x) != npos\<close>.\<close>

fun string_contains :: "string \<Rightarrow> string \<Rightarrow> bool" where
  "string_contains [] x = (x = [])"
| "string_contains (c # s) x = (prefix x (c # s) \<or> string_contains s x)"

text \<open>
  The body of the \<open>do\<close> loop up to the step to the next entry: the record of one
  entry. The test of the last character reads \<open>filePathString[size - 1]\<close>, which is
  outside the string for an empty name; an empty name counts here as not ending in a
  slash.
\<close>

definition archiveRecord ::
  "'w::len ResourcesManagerImpl \<Rightarrow> string \<Rightarrow> string \<Rightarrow> string \<Rightarrow> nat \<Rightarrow> unz_file_pos \<Rightarrow>
     (string \<times> 'w FileRecord) option" where
  "archiveRecord s archivePath rootFolder filePathString uncompressed_size pos =
     (let slashEndedRootFolder = rootFolder @ ''/'';
          shouldAddRecord =
            (\<not> ((filePathString \<noteq> [] \<and> last filePathString = CHR ''/'') \<or>
                (rootFolder \<noteq> [] \<and> \<not> prefix slashEndedRootFolder filePathString)))
      in if \<not> shouldAddRecord then None
         else
           let rootFolderRelativePath =
                 (if rootFolder \<noteq> [] then drop (length slashEndedRootFolder) filePathString
                  else filePathString);
               lang = fold (\<lambda>(folder, l) cur.
                              if prefix (combine [rootFolder, folder]) filePathString then l else cur)
                           (relativeFolderToLanguageIdMap s) [];
               (cat, relativePathInMap) =
                 fold (\<lambda>(folder, c) (cur, rel).
                         if string_contains filePathString (folder @ ''/'')
                         then (c, replaceAll rel (folder @ ''/'') [])
                         else (cur, rel))
                      (relativeFolderToCategoryMap s) ([], rootFolderRelativePath);
               fr = \<lparr>filename = filePathString, fileType = CompressedFile,
                     size' = word_of_nat uncompressed_size, languageId = lang, category = cat,
                     filePath = [], relativePath = rootFolderRelativePath,
                     zipFilePath = archivePath, zipFilePos = pos\<rparr>
           in Some (makeKey s relativePathInMap, fr))"

function addArchive_loop ::
  "string \<Rightarrow> string \<Rightarrow> string \<times> nat \<Rightarrow> unz_s \<Rightarrow> 'w::len ResourcesManagerImpl \<Rightarrow>
     (exception + unit) \<times> 'w ResourcesManagerImpl \<times> unz_s" where
  "addArchive_loop archivePath rootFolder entry u s =
     (case unzGetFilePos u of
        UNZ_OK pos \<Rightarrow>
          if filenameToRecordMap s (fst entry) \<noteq> None then (Inl std_exception, s, u)
          else
            let s1 = (case archiveRecord s archivePath rootFolder (fst entry) (snd entry) pos of
                        None \<Rightarrow> s
                      | Some (key, fr) \<Rightarrow> push_back_record key fr s)
            in (case unzGoToNextFile2 u of
                  (UNZ_OK entry', u1) \<Rightarrow> addArchive_loop archivePath rootFolder entry' u1 s1
                | (UNZ_END_OF_LIST_OF_FILE, u1) \<Rightarrow> (Inr (), s1, u1)
                | (UNZ_ERROR, u1) \<Rightarrow> (Inl std_exception, s1, u1))
      | _ \<Rightarrow> (Inl std_exception, s, u))"
  by pat_completeness auto
termination
proof (relation "measure (\<lambda>(archivePath, rootFolder, entry, u, s). length (central_dir u) - num_file u)")
  show "wf (measure (\<lambda>(archivePath, rootFolder, entry, u, s). length (central_dir u) - num_file u))"
    by simp
next
  fix archivePath rootFolder :: string and entry entry' :: "string \<times> nat"
    and u u1 :: unz_s and s s1 :: "'w ResourcesManagerImpl" and xa
  assume nxt: "(xa, u1) = unzGoToNextFile2 u" and ok: "xa = UNZ_OK entry'"
  from nxt ok have "unzGoToNextFile2 u = (UNZ_OK entry', u1)" by simp
  then have "num_file u1 = num_file u + 1 \<and> num_file u + 1 < length (central_dir u1)
             \<and> central_dir u1 = central_dir u"
    by (auto simp: unzGoToNextFile2_def unz_current_def unz_goto_def Let_def
             split: if_splits zip_item.splits)
  then show "((archivePath, rootFolder, entry', u1, s1), (archivePath, rootFolder, entry, u, s))
        \<in> measure (\<lambda>(archivePath, rootFolder, entry, u, s). length (central_dir u) - num_file u)"
    by auto
qed

text \<open>
  \<open>addArchive\<close>. The handler of the \<open>catch\<close> block closes the \<open>zipFile\<close> of the
  function's outer scope. That variable is initialised to \<open>nullptr\<close> and never
  assigned: the archive is opened into a second variable of the same name, declared
  inside the \<open>try\<close> block. The parameter \<open>outer_zipFile\<close> of the handler is that outer
  variable.
\<close>

definition addArchive_catch :: "nat option \<Rightarrow> world \<Rightarrow> world" where
  "addArchive_catch outer_zipFile w =
     (case outer_zipFile of None \<Rightarrow> w | Some z \<Rightarrow> unzClose w z)"

definition addArchive ::
  "string \<Rightarrow> string \<Rightarrow> 'w::len ResourcesManagerImpl \<Rightarrow> world \<Rightarrow>
     (exception + unit) \<times> 'w ResourcesManagerImpl \<times> world" where
  "addArchive archivePath rootFolder s w =
     (let outer_zipFile = None
      in case unzOpen w archivePath of
           (None, w1) \<Rightarrow> (Inl std_exception, s, addArchive_catch outer_zipFile w1)
         | (Some zf, w1) \<Rightarrow>
             (case unzGoToFirstFile2 (unz_state w1 zf) of
                (UNZ_OK entry, u) \<Rightarrow>
                  (case addArchive_loop archivePath rootFolder entry u s of
                     (Inr _, s', u') \<Rightarrow> (Inr (), s', unz_store w1 zf u')
                   | (Inl e, s', u') \<Rightarrow>
                       (Inl e, s', addArchive_catch outer_zipFile (unz_store w1 zf u')))
              | (_, u) \<Rightarrow>
                  (Inl std_exception, s, addArchive_catch outer_zipFile (unz_store w1 zf u))))"

section \<open>Streams\<close>

definition getStreamRecord :: "'w::len ResourcesManagerImpl \<Rightarrow> 32 word \<Rightarrow> StreamRecord option" where
  "getStreamRecord s handle = openStreams s handle"

text \<open>
  \<open>getStream\<close>; \<open>rnd\<close> is the value that \<open>arc4random()\<close> returns in this call. The
  results are: an exception, no stream (\<open>nullptr\<close>), or the handle of the new stream.
  The stream record keeps the pointer that \<open>findFileRecord\<close> returned. (Of \<open>file\<close>
  and \<open>zipFile\<close> the program sets the one that fits the file type and never reads
  the other one, which is \<open>None\<close> here.)
\<close>

definition insertStream ::
  "StreamRecord \<Rightarrow> 'w::len ResourcesManagerImpl \<Rightarrow> world \<Rightarrow>
     (exception + 32 word option) \<times> 'w ResourcesManagerImpl \<times> world" where
  "insertStream streamRecord s w =
     (if openStreams s (randomValue streamRecord) \<noteq> None then (Inl std_exception, s, w)
      else (Inr (Some (randomValue streamRecord)),
            s\<lparr>openStreams := (openStreams s)(randomValue streamRecord \<mapsto> streamRecord)\<rparr>, w))"

definition getStream ::
  "'w::len ResourcesManagerImpl \<Rightarrow> world \<Rightarrow> 32 word \<Rightarrow> string \<Rightarrow>
     (exception + 32 word option) \<times> 'w ResourcesManagerImpl \<times> world" where
  "getStream s w rnd name =
     (case findFileRecord s name of
        None \<Rightarrow> (Inr None, s, w)
      | Some (ptr, fr) \<Rightarrow>
          (let streamRecord = \<lparr>fileRecord = ptr, randomValue = rnd, file' = None, zipFile = None\<rparr>
           in case fileType fr of
                RegularFile \<Rightarrow>
                  (case fopen w (filePath fr) of
                     (None, w1) \<Rightarrow> (Inr None, s, w1)
                   | (Some f, w1) \<Rightarrow> insertStream (streamRecord\<lparr>file' := Some f\<rparr>) s w1)
              | _ \<Rightarrow>
                  (case unzOpen w (zipFilePath fr) of
                     (None, w1) \<Rightarrow> (Inl std_exception, s, w1)
                   | (Some z, w1) \<Rightarrow>
                       (case unzGoToFilePos (unz_state w1 z) (zipFilePos fr) of
                          (UNZ_OK _, u1) \<Rightarrow>
                            (case unzOpenCurrentFile u1 of
                               (UNZ_OK _, u2) \<Rightarrow>
                                 insertStream (streamRecord\<lparr>zipFile := Some z\<rparr>) s (unz_store w1 z u2)
                             | (_, u2) \<Rightarrow> (Inl std_exception, s, unz_store w1 z u2))
                        | (_, u1) \<Rightarrow> (Inl std_exception, s, unz_store w1 z u1)))))"

text \<open>
  Reading through a \<open>FileRecord*\<close> that a stream has kept. The pointer is good as
  long as the vector it points into is in the record store and still has the buffer
  that the pointer was taken from. After \<open>filenameToRecordMap.clear()\<close>, or after a
  \<open>push_back\<close> that moved the vector to a new buffer, the pointer dangles, and
  reading through it has no defined behaviour.
\<close>

definition deref :: "'w::len ResourcesManagerImpl \<Rightarrow> FileRecord_ptr \<Rightarrow> 'w FileRecord option" where
  "deref s p =
     (case filenameToRecordMap s (vector_key p) of
        None \<Rightarrow> None
      | Some v \<Rightarrow>
          if buffer v = buffer_address p \<and> element_index p < length (elems v)
          then Some (elems v ! element_index p) else None)"

datatype 'a behaviour = Returns 'a | Undefined_behaviour

text \<open>
  \<open>readData(int handle, void* buffer, int size)\<close>: \<open>size\<close> is an \<open>int\<close>, the backend's
  count goes through the local \<open>int ret\<close>, and the result is a \<open>size_t\<close>.
\<close>

definition readData_handle ::
  "'w::len ResourcesManagerImpl \<Rightarrow> world \<Rightarrow> 32 word \<Rightarrow> 32 word \<Rightarrow> ('w word \<times> world) behaviour" where
  "readData_handle s w handle sz =
     (case getStreamRecord s handle of
        None \<Rightarrow> Returns (0, w)
      | Some streamRecord \<Rightarrow>
          (case deref s (fileRecord streamRecord) of
             None \<Rightarrow> Undefined_behaviour
           | Some fr \<Rightarrow>
               Returns
                 (case fileType fr of
                    RegularFile \<Rightarrow>
                      (case file' streamRecord of
                         None \<Rightarrow> (0, w)
                       | Some f \<Rightarrow>
                           (let (n, w1) = fread w f (unat (scast sz :: 'w word));
                                ret = (word_of_nat n :: 32 word)
                            in (scast ret, w1)))
                  | _ \<Rightarrow>
                      (case zipFile streamRecord of
                         None \<Rightarrow> (0, w)
                       | Some z \<Rightarrow>
                           (let (ret, u1) = unzReadCurrentFile (unz_state w z) (unat sz)
                            in (scast ret, unz_store w z u1))))))"

definition closeFile ::
  "'w::len ResourcesManagerImpl \<Rightarrow> world \<Rightarrow> 32 word \<Rightarrow>
     (32 word \<times> 'w ResourcesManagerImpl \<times> world) behaviour" where
  "closeFile s w handle =
     (case getStreamRecord s handle of
        None \<Rightarrow> Returns (0, s, w)
      | Some streamRecord \<Rightarrow>
          (case deref s (fileRecord streamRecord) of
             None \<Rightarrow> Undefined_behaviour
           | Some fr \<Rightarrow>
               (let (ret, w1) =
                      (case fileType fr of
                         RegularFile \<Rightarrow>
                           (case file' streamRecord of None \<Rightarrow> (0, w) | Some f \<Rightarrow> fclose w f)
                       | _ \<Rightarrow>
                           (case zipFile streamRecord of
                              None \<Rightarrow> (0, w)
                            | Some z \<Rightarrow>
                                (0, unzClose (unz_store w z (unzCloseCurrentFile (unz_state w z))) z)))
                in Returns (ret, s\<lparr>openStreams := (openStreams s)(randomValue streamRecord := None)\<rparr>,
                            w1))))"

section \<open>Reading by filename\<close>

definition readDataFromRegularFile :: "world \<Rightarrow> string \<Rightarrow> 32 word \<Rightarrow> 'w::len word \<times> world" where
  "readDataFromRegularFile w path sz =
     (case fopen w path of
        (None, w1) \<Rightarrow> (0, w1)
      | (Some f, w1) \<Rightarrow>
          (let (bytesRead, w2) = fread w1 f (unat (scast sz :: 'w word));
               (r, w3) = fclose w2 f
           in (word_of_nat bytesRead, w3)))"

text \<open>As in \<open>addArchive\<close>, the handler closes the outer \<open>zipFile\<close>, which stays null.\<close>

definition readDataFromCompressedFile_catch :: "nat option \<Rightarrow> world \<Rightarrow> world" where
  "readDataFromCompressedFile_catch outer_zipFile w =
     (case outer_zipFile of
        None \<Rightarrow> w
      | Some z \<Rightarrow> unzClose (unz_store w z (unzCloseCurrentFile (unz_state w z))) z)"

definition readDataFromCompressedFile ::
  "world \<Rightarrow> 'w::len FileRecord \<Rightarrow> 32 word \<Rightarrow> (exception + 'w word) \<times> world" where
  "readDataFromCompressedFile w fr sz =
     (let outer_zipFile = None
      in case unzOpen w (zipFilePath fr) of
           (None, w1) \<Rightarrow> (Inl std_exception, readDataFromCompressedFile_catch outer_zipFile w1)
         | (Some zf, w1) \<Rightarrow>
             (case unzGoToFilePos (unz_state w1 zf) (zipFilePos fr) of
                (UNZ_OK _, u1) \<Rightarrow>
                  (case unzOpenCurrentFile u1 of
                     (UNZ_OK _, u2) \<Rightarrow>
                       (let (ret, u3) = unzReadCurrentFile u2 (unat sz)
                        in if sint ret < 0
                           then (Inl std_exception,
                                 readDataFromCompressedFile_catch outer_zipFile (unz_store w1 zf u3))
                           else (Inr (scast ret),
                                 unzClose (unz_store w1 zf (unzCloseCurrentFile u3)) zf))
                   | (_, u2) \<Rightarrow>
                       (Inl std_exception,
                        readDataFromCompressedFile_catch outer_zipFile (unz_store w1 zf u2)))
              | (_, u1) \<Rightarrow>
                  (Inl std_exception,
                   readDataFromCompressedFile_catch outer_zipFile (unz_store w1 zf u1))))"

text \<open>\<open>ResourcesManagerImpl::readData(fileRecord, buffer, size)\<close>.\<close>

definition readData_record ::
  "world \<Rightarrow> 'w::len FileRecord \<Rightarrow> 32 word \<Rightarrow> (exception + 'w word) \<times> world" where
  "readData_record w fr sz =
     (if fileType fr = RegularFile
      then (let (n, w1) = readDataFromRegularFile w (filePath fr) sz in (Inr n, w1))
      else if fileType fr = CompressedFile then readDataFromCompressedFile w fr sz
      else (Inr 0, w))"

text \<open>\<open>readData(filename, buffer, size)\<close>.\<close>

definition readData_buffer ::
  "'w::len ResourcesManagerImpl \<Rightarrow> world \<Rightarrow> string \<Rightarrow> 32 word \<Rightarrow> (exception + 'w word) \<times> world" where
  "readData_buffer s w name sz =
     (case findFileRecord s name of
        None \<Rightarrow> (Inr 0, w)
      | Some (ptr, fr) \<Rightarrow> readData_record w fr sz)"

text \<open>
  \<open>readData(filename, pBytesRead)\<close>, the variant that returns an owned buffer.
  \<open>new_array n\<close> says whether \<open>new char[n]\<close> succeeds; when it does not, \<open>new\<close> throws.
  The result is the exception, or \<open>None\<close> for the null buffer, or the number of bytes
  in the buffer. The record's \<open>size_t\<close> size is passed on as an \<open>int\<close>.
\<close>

definition readData_owned ::
  "'w::len ResourcesManagerImpl \<Rightarrow> world \<Rightarrow> (nat \<Rightarrow> bool) \<Rightarrow> string \<Rightarrow>
     (exception + 'w word option) \<times> world" where
  "readData_owned s w new_array name =
     (case findFileRecord s name of
        None \<Rightarrow> (Inr None, w)
      | Some (ptr, fr) \<Rightarrow>
          if \<not> new_array (unat (size' fr)) then (Inl bad_alloc, w)
          else (case readData_record w fr (ucast (size' fr)) of
                  (Inl e, w1) \<Rightarrow> (Inl e, w1)
                | (Inr bytesRead, w1) \<Rightarrow>
                    if bytesRead \<noteq> size' fr then (Inl std_exception, w1)
                    else (Inr (Some bytesRead), w1)))"

section \<open>Notions used in the statements\<close>

text \<open>The records stored under a key, and under the key that a search root gives
  for a looked-up key.\<close>

definition records_at :: "'w::len ResourcesManagerImpl \<Rightarrow> string \<Rightarrow> 'w FileRecord list" where
  "records_at s key = (case filenameToRecordMap s key of None \<Rightarrow> [] | Some v \<Rightarrow> elems v)"

definition stored_under :: "'w::len ResourcesManagerImpl \<Rightarrow> string \<Rightarrow> string \<Rightarrow> 'w FileRecord set" where
  "stored_under s key root = set (records_at s (makeKey s (combine [root, key])))"

text \<open>
  The entries that a walk of a directory listing visits: every entry that is not a
  directory, whose name and whose folders' names do not begin with a dot, below
  folders that can be opened; each with the names of the folders on the way to it.
\<close>

fun visible_files :: "dirent list \<Rightarrow> (string list \<times> string) list"
and visible_in :: "dirent \<Rightarrow> (string list \<times> string) list" where
  "visible_files [] = []"
| "visible_files (ep # rest) = visible_in ep @ visible_files rest"
| "visible_in (NotDir name) = (if hidden name then [] else [([], name)])"
| "visible_in (Dir name None) = []"
| "visible_in (Dir name (Some dp)) =
     (if hidden name then [] else map (\<lambda>(dirs, f). (name # dirs, f)) (visible_files dp))"

definition visible_opt :: "dirent list option \<Rightarrow> (string list \<times> string) list" where
  "visible_opt dp = (case dp of None \<Rightarrow> [] | Some es \<Rightarrow> visible_files es)"

text \<open>The folders on the way to a file that count for its key: those whose name is
  not registered as a category folder.\<close>

definition key_folders :: "string_map \<Rightarrow> string list \<Rightarrow> string list" where
  "key_folders categoryFolders dirs = filter (\<lambda>d. map_find categoryFolders d = None) dirs"

text \<open>What \<open>combine\<close> joins before it drops the last slash.\<close>

definition slashed :: "string list \<Rightarrow> string" where
  "slashed xs = concat (map (\<lambda>c. c @ ''/'') (filter (\<lambda>c. c \<noteq> []) xs))"

text \<open>
  The record that the walk creates for a visited file \<open>leaf\<close> (its folders and its
  name), below the relative folder \<open>rel\<close> of the root folder \<open>root\<close>; the key it is
  stored under; and what a walk over the visited files \<open>leaves\<close> does to the record
  store: under every key it appends records of visited files with that key, and every
  visited file has its record under its key.
\<close>

definition is_record_of ::
  "(string \<Rightarrow> int option) \<Rightarrow> string \<Rightarrow> string \<Rightarrow> string list \<times> string \<Rightarrow> 'w::len FileRecord \<Rightarrow> bool" where
  "is_record_of stat root rel leaf fr =
     (filename fr = snd leaf \<and> fileType fr = RegularFile \<and>
      relativePath fr = combine (rel # fst leaf @ [snd leaf]) \<and>
      filePath fr = combine [root, relativePath fr] \<and>
      size' fr = getFileSize stat (filePath fr))"

definition leaf_key :: "'w::len ResourcesManagerImpl \<Rightarrow> string \<Rightarrow> string list \<times> string \<Rightarrow> string" where
  "leaf_key s relMap leaf =
     makeKey s (combine (relMap #
        key_folders (relativeFolderToCategoryMap s) (fst leaf) @ [snd leaf]))"

definition walk_ok ::
  "(string \<Rightarrow> int option) \<Rightarrow> string \<Rightarrow> string \<Rightarrow> string \<Rightarrow> (string list \<times> string) list \<Rightarrow>
     'w::len ResourcesManagerImpl \<Rightarrow> 'w ResourcesManagerImpl \<Rightarrow> bool" where
  "walk_ok stat root rel relMap leaves s s' =
     ((\<forall>k. \<exists>new. records_at s' k = records_at s k @ new \<and>
           (\<forall>fr \<in> set new. \<exists>leaf \<in> set leaves.
               is_record_of stat root rel leaf fr \<and> k = leaf_key s relMap leaf)) \<and>
      (\<forall>leaf \<in> set leaves. \<exists>fr \<in> set (records_at s' (leaf_key s relMap leaf)).
           is_record_of stat root rel leaf fr))"

text \<open>The world after a sequence of reads of the given sizes on a handle.\<close>

fun read_many ::
  "'w::len ResourcesManagerImpl \<Rightarrow> 32 word \<Rightarrow> 32 word list \<Rightarrow> world \<Rightarrow> world behaviour" where
  "read_many s handle [] w = Returns w"
| "read_many s handle (sz # sizes) w =
     (case readData_handle s w handle sz of
        Undefined_behaviour \<Rightarrow> Undefined_behaviour
      | Returns (n, w1) \<Rightarrow> read_many s handle sizes w1)"

text \<open>The streams whose record pointer is good: those that \<open>readData\<close> and
  \<open>closeFile\<close> can use.\<close>

definition stream_valid :: "'w::len ResourcesManagerImpl \<Rightarrow> 32 word \<Rightarrow> bool" where
  "stream_valid s handle =
     (case openStreams s handle of None \<Rightarrow> False | Some sr \<Rightarrow> deref s (fileRecord sr) \<noteq> None)"

text \<open>The invariant of the open-stream table: a stream's record holds the handle it
  is stored under.\<close>

definition handles_consistent :: "'w::len ResourcesManagerImpl \<Rightarrow> bool" where
  "handles_consistent s = (\<forall>h sr. openStreams s h = Some sr \<longrightarrow> randomValue sr = h)"

text \<open>Path separators, and the part of \<open>makeKey\<close> after the lower-casing: two
  backslashes become a slash, then every backslash becomes a slash.\<close>

definition is_sep :: "char \<Rightarrow> bool" where
  "is_sep c = (c = CHR ''/'' \<or> c = backslash)"

definition key_norm :: "string \<Rightarrow> string" where
  "key_norm x =
     map (\<lambda>c. if c = backslash then CHR ''/'' else c) (replaceAll x [backslash, backslash] ''/'')"

text \<open>The values of a tree from left to right, and a search tree whose keys \<open>k\<close>
  fall from left to right.\<close>

fun inorder :: "'a tree \<Rightarrow> 'a list" where
  "inorder Leaf = []"
| "inorder (Node c l a r) = inorder l @ a # inorder r"

definition ordered_by :: "('a \<Rightarrow> 'k::linorder) \<Rightarrow> 'a tree \<Rightarrow> bool" where
  "ordered_by k t = sorted_wrt (\<lambda>x y. k x > k y) (inorder t)"

section \<open>Reachable manager states\<close>

text \<open>
  The states of the manager that a client can produce: the constructor, then any of
  the public methods that change the manager, each in any world and with any
  arguments. (\<open>exists\<close>, \<open>getSize\<close>, \<open>readData\<close>, \<open>seek\<close> and \<open>tell\<close> leave the
  manager as it is. A call without defined behaviour leads to no state.)
\<close>

inductive reachable :: "'w::len ResourcesManagerImpl \<Rightarrow> bool" where
  r_new: "reachable ResourcesManager"
| r_reset: "reachable s \<Longrightarrow> reachable (reset s)"
| r_enableTrace: "reachable s \<Longrightarrow> reachable (s\<lparr>enableTrace := b\<rparr>)"
| r_addRootFolder: "reachable s \<Longrightarrow> reachable (addRootFolder stat dp rootFolder s)"
| r_addLanguageFolder: "reachable s \<Longrightarrow> reachable (addLanguageFolder lang languageFolder s)"
| r_setCurrentLanguage: "reachable s \<Longrightarrow> reachable (setCurrentLanguage lang s)"
| r_addCategoryFolder: "reachable s \<Longrightarrow> reachable (addCategoryFolder cat categoryFolder s)"
| r_enableCategory: "reachable s \<Longrightarrow> reachable (enableCategory cat s)"
| r_disableCategory: "reachable s \<Longrightarrow> reachable (disableCategory cat s)"
| r_setSearchByRelativePaths: "reachable s \<Longrightarrow> reachable (setSearchByRelativePaths b s)"
| r_addSearchRoot: "reachable s \<Longrightarrow> reachable (addSearchRoot searchRoot s)"
| r_addArchive: "reachable s \<Longrightarrow> reachable (fst (snd (addArchive archivePath rootFolder s w)))"
| r_getStream: "reachable s \<Longrightarrow> reachable (fst (snd (getStream s w rnd name)))"
| r_closeFile: "reachable s \<Longrightarrow> closeFile s w handle = Returns (r, s', w') \<Longrightarrow> reachable s'"


section \<open>Example inputs\<close>

text \<open>A root folder with one file \<open>a.txt\<close> of five bytes, and a stream opened on it
  with the random value 7.\<close>

definition demo_stat :: "string \<Rightarrow> int option" where
  "demo_stat path = (if path = ''root/a.txt'' then Some 5 else None)"

definition demo_world :: world where
  "demo_world = \<lparr>disk_files = [''root/a.txt'' \<mapsto> 5], disk_zips = Map.empty, open_FILEs = Map.empty,
                  open_unzFiles = Map.empty, next_handle = 1\<rparr>"

definition demo_indexed :: "64 ResourcesManagerImpl" where
  "demo_indexed = addRootFolder demo_stat (Some [NotDir ''a.txt'']) ''root'' ResourcesManager"

definition a_txt :: "64 FileRecord" where
  "a_txt =
     \<lparr>filename = ''a.txt'', fileType = RegularFile, size' = 5, languageId = [],
      category = [], filePath = ''root/a.txt'', relativePath = ''a.txt'',
      zipFilePath = [], zipFilePos = 0\<rparr>"

definition a_txt_ptr :: FileRecord_ptr where
  "a_txt_ptr = \<lparr>vector_key = ''a.txt'', buffer_address = 1, element_index = 0\<rparr>"

definition demo_streaming :: "64 ResourcesManagerImpl" where
  "demo_streaming = fst (snd (getStream demo_indexed demo_world 7 ''a.txt''))"

text \<open>The same with a second stream on the file, opened with the random value 9.\<close>

definition demo_streaming_world :: world where
  "demo_streaming_world = snd (snd (getStream demo_indexed demo_world 7 ''a.txt''))"

definition demo_two_streams :: "64 ResourcesManagerImpl" where
  "demo_two_streams = fst (snd (getStream demo_streaming demo_streaming_world 9 ''a.txt''))"

text \<open>The first stream read three times with a buffer of three bytes and then
  closed: the manager and the world after the close.\<close>

definition demo_read_world :: world where
  "demo_read_world =
     (case read_many demo_streaming 7 [3, 3, 3] demo_streaming_world of
        Returns w \<Rightarrow> w | Undefined_behaviour \<Rightarrow> demo_streaming_world)"

definition demo_closed :: "64 ResourcesManagerImpl" where
  "demo_closed =
     (case closeFile demo_streaming demo_read_world 7 of
        Returns (r, s, w) \<Rightarrow> s | Undefined_behaviour \<Rightarrow> demo_streaming)"

definition demo_closed_world :: world where
  "demo_closed_world =
     (case closeFile demo_streaming demo_read_world 7 of
        Returns (r, s, w) \<Rightarrow> w | Undefined_behaviour \<Rightarrow> demo_read_world)"

text \<open>The manager with the one stream open, after a second root folder with a file
  \<open>a.txt\<close> was added: the vector under the key \<open>a.txt\<close> has grown from one element
  to two.\<close>

definition demo_grown :: "64 ResourcesManagerImpl" where
  "demo_grown = addRootFolder demo_stat (Some [NotDir ''a.txt'']) ''more'' demo_streaming"

text \<open>
  A root folder holding \<open>sprite.png\<close> and \<open>HD/sprite.png\<close>, with the folder name
  \<open>HD\<close> registered for the category \<open>HD\<close> and that category enabled.
\<close>

definition hd_stat :: "string \<Rightarrow> int option" where
  "hd_stat path = (if path = ''root/sprite.png'' then Some 10 else None)"

definition hd_tree :: "dirent list" where
  "hd_tree = [NotDir ''sprite.png'', Dir ''HD'' (Some [NotDir ''sprite.png''])]"

definition hd_configured :: "64 ResourcesManagerImpl" where
  "hd_configured = enableCategory ''HD'' (addCategoryFolder ''HD'' ''HD'' ResourcesManager)"

definition hd_indexed :: "64 ResourcesManagerImpl" where
  "hd_indexed = addRootFolder hd_stat (Some hd_tree) ''root'' hd_configured"

definition sprite_generic :: "64 FileRecord" where
  "sprite_generic =
     \<lparr>filename = ''sprite.png'', fileType = RegularFile, size' = 10, languageId = [],
      category = [], filePath = ''root/sprite.png'', relativePath = ''sprite.png'',
      zipFilePath = [], zipFilePos = 0\<rparr>"

definition sprite_hd :: "64 FileRecord" where
  "sprite_hd =
     \<lparr>filename = ''sprite.png'', fileType = RegularFile, size' = - 1, languageId = [],
      category = ''HD'', filePath = ''root/HD/sprite.png'', relativePath = ''HD/sprite.png'',
      zipFilePath = [], zipFilePos = 0\<rparr>"

text \<open>
  A root folder holding \<open>en/HD/x.png\<close> and \<open>fr/x.png\<close>, read in this order, with the
  language folders \<open>en\<close> and \<open>fr\<close>, the category folder \<open>HD\<close>, the category enabled
  and no current language.
\<close>

definition lang_tree :: "dirent list" where
  "lang_tree = [Dir ''en'' (Some [Dir ''HD'' (Some [NotDir ''x.png''])]),
                Dir ''fr'' (Some [NotDir ''x.png''])]"

definition lang_indexed :: "64 ResourcesManagerImpl" where
  "lang_indexed =
     addRootFolder (\<lambda>path. Some 1) (Some lang_tree) ''root''
       (enableCategory ''HD'' (addCategoryFolder ''HD'' ''HD''
          (addLanguageFolder ''fr'' ''fr'' (addLanguageFolder ''en'' ''en'' ResourcesManager))))"

definition x_en_hd :: "64 FileRecord" where
  "x_en_hd =
     \<lparr>filename = ''x.png'', fileType = RegularFile, size' = 1, languageId = ''en'',
      category = ''HD'', filePath = ''root/en/HD/x.png'', relativePath = ''en/HD/x.png'',
      zipFilePath = [], zipFilePos = 0\<rparr>"

definition x_fr :: "64 FileRecord" where
  "x_fr =
     \<lparr>filename = ''x.png'', fileType = RegularFile, size' = 1, languageId = ''fr'',
      category = [], filePath = ''root/fr/x.png'', relativePath = ''fr/x.png'',
      zipFilePath = [], zipFilePos = 0\<rparr>"

text \<open>
  A root folder holding \<open>en/HD/x.png\<close>, \<open>fr/x.png\<close>, \<open>SD/x.png\<close> and
  \<open>zz/HD/x.png\<close>, read in this order, where the folders \<open>en\<close> and \<open>zz\<close> are
  registered for the language \<open>en\<close> and \<open>fr\<close> for \<open>fr\<close>, \<open>HD\<close> and \<open>SD\<close> are
  category folders, both categories are enabled and no current language is set.
\<close>

definition four_tree :: "dirent list" where
  "four_tree = [Dir ''en'' (Some [Dir ''HD'' (Some [NotDir ''x.png''])]),
                Dir ''fr'' (Some [NotDir ''x.png'']),
                Dir ''SD'' (Some [NotDir ''x.png'']),
                Dir ''zz'' (Some [Dir ''HD'' (Some [NotDir ''x.png''])])]"

definition four_indexed :: "64 ResourcesManagerImpl" where
  "four_indexed =
     addRootFolder (\<lambda>path. Some 1) (Some four_tree) ''root''
       (enableCategory ''SD'' (enableCategory ''HD''
          (addCategoryFolder ''SD'' ''SD'' (addCategoryFolder ''HD'' ''HD''
             (addLanguageFolder ''en'' ''zz'' (addLanguageFolder ''fr'' ''fr''
                (addLanguageFolder ''en'' ''en'' ResourcesManager)))))))"

text \<open>
  Four archives: \<open>upper.zip\<close> lists the name \<open>A.png\<close> twice, \<open>lower.zip\<close> lists
  \<open>a.png\<close> twice, \<open>empty.zip\<close> has no entry, and the second directory record of
  \<open>broken.zip\<close> cannot be read.
\<close>

definition zip_world :: world where
  "zip_world =
     \<lparr>disk_files = Map.empty,
      disk_zips = [''upper.zip'' \<mapsto> [ZEntry ''A.png'' 3, ZEntry ''A.png'' 4],
                   ''lower.zip'' \<mapsto> [ZEntry ''a.png'' 3, ZEntry ''a.png'' 4],
                   ''empty.zip'' \<mapsto> [],
                   ''broken.zip'' \<mapsto> [ZEntry ''a.png'' 3, ZBroken]],
      open_FILEs = Map.empty, open_unzFiles = Map.empty, next_handle = 1\<rparr>"

definition new_manager :: "64 ResourcesManagerImpl" where
  "new_manager = ResourcesManager"

text \<open>The root folder with \<open>sprite.png\<close> and \<open>HD/sprite.png\<close> again, indexed after
  \<open>setSearchByRelativePaths(true)\<close>.\<close>

definition hd_relative_indexed :: "64 ResourcesManagerImpl" where
  "hd_relative_indexed =
     addRootFolder hd_stat (Some hd_tree) ''root'' (setSearchByRelativePaths True hd_configured)"

text \<open>A root folder holding \<open>res/a.png\<close>, indexed by a new manager.\<close>

definition res_tree :: "dirent list" where
  "res_tree = [Dir ''res'' (Some [NotDir ''a.png''])]"

definition res_indexed :: "64 ResourcesManagerImpl" where
  "res_indexed = addRootFolder (\<lambda>path. Some 1) (Some res_tree) ''root'' new_manager"





section \<open>Properties\<close>

subsection \<open>Evaluating the examples\<close>

lemmas path_eval =
  hidden_def makeKey_def combine_def basename_def backslash_def tolower_def Let_def

lemma demo_indexed_eq:
  "demo_indexed =
     \<lparr>enableTrace = False, rootFoldersList = [''root''],
      filenameToRecordMap = [''a.txt'' \<mapsto> \<lparr>buffer = 1, elems = [a_txt], capacity = 1\<rparr>],
      languageId' = [], relativeFolderToLanguageIdMap = [],
      relativeFolderToCategoryMap = [], enabledCategories = {},
      openStreams = Map.empty, searchByRelativePaths = False, searchRootsList = [[]],
      next_address = 2\<rparr>"
  by (simp add: demo_indexed_def addRootFolder_def ResourcesManager_def reset_def hidden_def
        makeKey_def combine_def basename_def backslash_def tolower_def Let_def
        push_back_record_def vector_push_back_def getFileSize_def demo_stat_def a_txt_def)

lemma demo_find: "findFileRecord demo_indexed ''a.txt'' = Some (a_txt_ptr, a_txt)"
  by code_simp

lemma demo_indexed_streams: "openStreams demo_indexed = Map.empty"
  by (simp add: demo_indexed_eq)

lemma demo_getStream:
  "getStream demo_indexed demo_world 7 ''a.txt'' =
     (Inr (Some 7),
      demo_indexed\<lparr>openStreams :=
        [7 \<mapsto> \<lparr>fileRecord = a_txt_ptr, randomValue = 7, file' = Some 1, zipFile = None\<rparr>]\<rparr>,
      demo_world\<lparr>open_FILEs := [1 \<mapsto> \<lparr>file_length = 5, file_pos = 0\<rparr>], next_handle := 2\<rparr>)"
  by (simp add: getStream_def demo_find fopen_def demo_world_def insertStream_def
        demo_indexed_streams a_txt_def)

lemma demo_streaming_streams:
  "openStreams demo_streaming =
     [7 \<mapsto> \<lparr>fileRecord = a_txt_ptr, randomValue = 7, file' = Some 1, zipFile = None\<rparr>]"
  by (simp add: demo_streaming_def demo_getStream)

lemma reachable_demo_streaming: "reachable demo_streaming"
  unfolding demo_streaming_def demo_indexed_def
  by (intro reachable.intros)

lemma hd_indexed_eq:
  "hd_indexed =
     \<lparr>enableTrace = False, rootFoldersList = [''root''],
      filenameToRecordMap =
        [''sprite.png'' \<mapsto> \<lparr>buffer = 2, elems = [sprite_generic, sprite_hd], capacity = 2\<rparr>],
      languageId' = [], relativeFolderToLanguageIdMap = [],
      relativeFolderToCategoryMap = [(''HD'', ''HD'')], enabledCategories = {''HD''},
      openStreams = Map.empty, searchByRelativePaths = False, searchRootsList = [[]],
      next_address = 3\<rparr>"
  by (simp add: hd_indexed_def hd_configured_def hd_tree_def addRootFolder_def ResourcesManager_def reset_def
        enableCategory_def addCategoryFolder_def map_find_def path_eval
        push_back_record_def vector_push_back_def getFileSize_def hd_stat_def
        sprite_generic_def sprite_hd_def eval_nat_numeral)

lemma hd_find:
  "findFileRecord hd_indexed ''sprite.png'' =
     Some (\<lparr>vector_key = ''sprite.png'', buffer_address = 2, element_index = 1\<rparr>, sprite_hd)"
  by code_simp

lemma hd_disabled_find:
  "findFileRecord (disableCategory ''HD'' hd_indexed) ''sprite.png'' =
     Some (\<lparr>vector_key = ''sprite.png'', buffer_address = 2, element_index = 0\<rparr>, sprite_generic)"
  by code_simp

subsection \<open>The candidate set and the loop over the search roots\<close>

text \<open>The rotations and the changes of colour keep the values of the tree and their
  order from left to right.\<close>

lemma set_inorder: "set (inorder t) = set_tree t"
  by (induction t) auto

lemma inorder_Nil: "inorder t = [] \<longleftrightarrow> t = Leaf"
  by (cases t) auto

lemma inorder_set_black: "inorder (set_black b t) = inorder t"
  by (cases t) auto

lemma inorder_balance_left:
  "inorder (tree_of (balance_left st c a r)) = inorder (tree_of st) @ a # inorder r"
  by (induction st c a r rule: balance_left.induct) (auto simp: inorder_set_black)

lemma inorder_balance_right:
  "inorder (tree_of (balance_right c l a st)) = inorder l @ a # inorder (tree_of st)"
  by (induction c l a st rule: balance_right.induct) (auto simp: inorder_set_black)

lemma inorder_set_insert:
  "inorder (set_insert cmp v t) = inorder (tree_of (insert_node cmp v t))"
  by (cases "insert_node cmp v t") (simp_all add: set_insert_def inorder_set_black)

lemma inorder_insert_node:
  "inorder (tree_of (insert_node cmp v (Node c l a r))) =
     (if cmp v a then inorder (tree_of (insert_node cmp v l)) @ a # inorder r
      else if cmp a v then inorder l @ a # inorder (tree_of (insert_node cmp v r))
      else inorder l @ a # inorder r)"
  by (simp add: inorder_balance_left inorder_balance_right)

lemma set_insert_not_Leaf: "set_insert cmp v t \<noteq> Leaf"
proof -
  have "inorder (tree_of (insert_node cmp v t)) \<noteq> []"
    by (cases t) (auto simp: inorder_balance_left inorder_balance_right)
  then show ?thesis
    by (simp add: inorder_set_insert[symmetric] inorder_Nil)
qed

lemma set_insert_node: "set (inorder (tree_of (insert_node cmp v t))) \<subseteq> insert v (set (inorder t))"
proof (induction t)
  case Leaf
  then show ?case by simp
next
  case (Node c l a r)
  then show ?case unfolding inorder_insert_node by auto
qed

lemma set_insert_node_mono: "set (inorder t) \<subseteq> set (inorder (tree_of (insert_node cmp v t)))"
proof (induction t)
  case Leaf
  then show ?case by simp
next
  case (Node c l a r)
  then show ?case unfolding inorder_insert_node by auto
qed

lemma set_tree_set_insert: "set_tree (set_insert cmp v t) \<subseteq> insert v (set_tree t)"
  using set_insert_node[of cmp v t] by (simp add: set_inorder[symmetric] inorder_set_insert)

lemma set_tree_set_insert_mono: "set_tree t \<subseteq> set_tree (set_insert cmp v t)"
  using set_insert_node_mono[of t cmp v] by (simp add: set_inorder[symmetric] inorder_set_insert)

lemma set_begin_inorder:
  "set_begin t = (case inorder t of [] \<Rightarrow> None | x # xs \<Rightarrow> Some x)"
  by (induction t) (auto split: list.splits option.splits)

lemma set_begin_None: "set_begin t = None \<longleftrightarrow> t = Leaf"
  by (simp add: set_begin_inorder inorder_Nil[symmetric] split: list.splits)

lemma set_begin_Some: "set_begin t = Some a \<Longrightarrow> a \<in> set_tree t"
  by (auto simp: set_begin_inorder set_inorder[symmetric] split: list.splits)

lemma insertCandidates_step:
  "insertCandidates s (r # refs) c =
     insertCandidates s refs (if admissible s (snd r) then set_insert candidatesOrder r c else c)"
  by (simp add: insertCandidates_def)

lemma insertCandidates_set:
  "set_tree (insertCandidates s refs c) \<subseteq> set_tree c \<union> {r \<in> set refs. admissible s (snd r)}"
proof (induction refs arbitrary: c)
  case Nil
  then show ?case by (simp add: insertCandidates_def)
next
  case (Cons r refs)
  show ?case
    unfolding insertCandidates_step
    using Cons.IH[of "if admissible s (snd r) then set_insert candidatesOrder r c else c"]
      set_tree_set_insert[of candidatesOrder r c]
    by (auto split: if_splits)
qed

lemma insertCandidates_not_Leaf:
  "c \<noteq> Leaf \<Longrightarrow> insertCandidates s refs c \<noteq> Leaf"
proof (induction refs arbitrary: c)
  case Nil
  then show ?case by (simp add: insertCandidates_def)
next
  case (Cons r refs)
  show ?case
    unfolding insertCandidates_step using Cons.prems
    by (intro Cons.IH) (simp add: set_insert_not_Leaf)
qed

lemma insertCandidates_Leaf_iff:
  "insertCandidates s refs Leaf = Leaf \<longleftrightarrow> (\<forall>r \<in> set refs. \<not> admissible s (snd r))"
proof (induction refs)
  case Nil
  then show ?case by (simp add: insertCandidates_def)
next
  case (Cons r refs)
  show ?case
  proof (cases "admissible s (snd r)")
    case True
    then have "insertCandidates s (r # refs) Leaf \<noteq> Leaf"
      unfolding insertCandidates_step
      using insertCandidates_not_Leaf[of "set_insert candidatesOrder r Leaf" s refs]
      by (simp add: set_insert_not_Leaf)
    with True show ?thesis by auto
  next
    case False
    then show ?thesis unfolding insertCandidates_step using Cons.IH by simp
  qed
qed

text \<open>The pointers that the inner loop takes: each points to the element that it is
  paired with.\<close>

lemma map_snd_element_refs: "map snd (element_refs k v) = elems v"
  by (simp add: element_refs_def comp_def map_nth)

lemma snd_element_refs: "snd ` set (element_refs k v) = set (elems v)"
  using map_snd_element_refs[of k v] by (metis set_map)

lemma element_refs_deref:
  assumes "filenameToRecordMap s k = Some v" and "(p, fr) \<in> set (element_refs k v)"
  shows "deref s p = Some fr"
  using assms by (auto simp: element_refs_def deref_def)

lemma stored_under_Some:
  "filenameToRecordMap s (makeKey s (combine [root, key])) = Some v \<Longrightarrow>
     stored_under s key root = set (elems v)"
  by (simp add: stored_under_def records_at_def)

lemma stored_under_None:
  "filenameToRecordMap s (makeKey s (combine [root, key])) = None \<Longrightarrow>
     stored_under s key root = {}"
  by (simp add: stored_under_def records_at_def)

lemma searchRoots_set:
  "set_tree (searchRoots s key roots Leaf)
     \<subseteq> {(p, fr). admissible s fr \<and> deref s p = Some fr \<and>
                  (\<exists>root \<in> set roots. fr \<in> stored_under s key root)}"
proof (induction roots)
  case Nil
  then show ?case by simp
next
  case (Cons root roots)
  let ?k = "makeKey s (combine [root, key])"
  show ?case
  proof (cases "filenameToRecordMap s ?k")
    case None
    then show ?thesis using Cons.IH by auto
  next
    case (Some v)
    show ?thesis
    proof (cases "insertCandidates s (element_refs ?k v) Leaf = Leaf")
      case True
      then show ?thesis using Some Cons.IH by (auto simp: Let_def)
    next
      case False
      then have ne: "elems v \<noteq> []" by (auto simp: insertCandidates_def element_refs_def)
      have sub: "set_tree (insertCandidates s (element_refs ?k v) Leaf)
                   \<subseteq> {r \<in> set (element_refs ?k v). admissible s (snd r)}"
        using insertCandidates_set[of s "element_refs ?k v" Leaf] by simp
      have "admissible s fr \<and> deref s p = Some fr \<and> fr \<in> stored_under s key root"
        if "(p, fr) \<in> set_tree (insertCandidates s (element_refs ?k v) Leaf)" for p fr
      proof -
        from that sub have m: "(p, fr) \<in> set (element_refs ?k v)" and a: "admissible s fr"
          by auto
        from m have "fr \<in> snd ` set (element_refs ?k v)" by force
        then have "fr \<in> stored_under s key root"
          by (simp add: snd_element_refs stored_under_Some[OF Some])
        with a element_refs_deref[OF Some m] show ?thesis by simp
      qed
      moreover have "searchRoots s key (root # roots) Leaf
                       = insertCandidates s (element_refs ?k v) Leaf"
        using Some False ne by (simp add: Let_def)
      ultimately show ?thesis by auto
    qed
  qed
qed

lemma searchRoots_Leaf_iff:
  "searchRoots s key roots Leaf = Leaf \<longleftrightarrow>
     (\<forall>root \<in> set roots. \<forall>fr \<in> stored_under s key root. \<not> admissible s fr)"
proof (induction roots)
  case Nil
  then show ?case by simp
next
  case (Cons root roots)
  let ?k = "makeKey s (combine [root, key])"
  show ?case
  proof (cases "filenameToRecordMap s ?k")
    case None
    then show ?thesis using Cons.IH by (simp add: stored_under_None)
  next
    case (Some v)
    have iff: "insertCandidates s (element_refs ?k v) Leaf = Leaf \<longleftrightarrow>
                 (\<forall>fr \<in> stored_under s key root. \<not> admissible s fr)"
    proof -
      have "(\<forall>r \<in> set (element_refs ?k v). \<not> admissible s (snd r)) \<longleftrightarrow>
            (\<forall>fr \<in> snd ` set (element_refs ?k v). \<not> admissible s fr)"
        by auto
      then show ?thesis
        unfolding insertCandidates_Leaf_iff stored_under_Some[OF Some]
        by (simp only: snd_element_refs)
    qed
    show ?thesis
    proof (cases "insertCandidates s (element_refs ?k v) Leaf = Leaf")
      case True
      then show ?thesis using Some Cons.IH iff by (auto simp: Let_def)
    next
      case False
      then have ne: "elems v \<noteq> []" by (auto simp: insertCandidates_def element_refs_def)
      show ?thesis using Some False ne iff by (auto simp: Let_def)
    qed
  qed
qed

lemma findFileRecord_Some:
  "findFileRecord s name = Some (p, fr) \<Longrightarrow>
     admissible s fr \<and> deref s p = Some fr \<and>
     (\<exists>root \<in> set (searchRootsList s). fr \<in> stored_under s (makeKey s name) root)"
  using searchRoots_set[of s "makeKey s name" "searchRootsList s"] set_begin_Some[of _ "(p, fr)"]
  by (auto simp: findFileRecord_def Let_def)

lemma findFileRecord_None_iff:
  "findFileRecord s name = None \<longleftrightarrow>
     (\<forall>root \<in> set (searchRootsList s). \<forall>fr \<in> stored_under s (makeKey s name) root. \<not> admissible s fr)"
  by (simp add: findFileRecord_def Let_def set_begin_None searchRoots_Leaf_iff)

subsection \<open>C1: the specificity rule\<close>

text \<open>
  C1 at a failing input. The root folder holds \<open>en/HD/x.png\<close> and \<open>fr/x.png\<close>,
  read in this order; \<open>en\<close> and \<open>fr\<close> are language folders, \<open>HD\<close> is a category
  folder, the category is enabled and no current language is set. Both records are
  stored under the key \<open>x.png\<close> and both are admissible. The first has a category and
  a language, the second has a language and no category, so the rule of C1 prefers the
  first. \<open>findFileRecord\<close> returns the second: the comparator of the candidate set
  puts each of the two below the other, and the record inserted last ends up first.
  (With two candidates the tree is not rotated.)
\<close>

theorem findFileRecord_specificity_failing_input:
  "records_at lang_indexed ''x.png'' = [x_en_hd, x_fr] \<and>
   admissible lang_indexed x_en_hd \<and> admissible lang_indexed x_fr \<and>
   category x_en_hd = ''HD'' \<and> languageId x_en_hd = ''en'' \<and>
   category x_fr = [] \<and> languageId x_fr = ''fr'' \<and>
   map_option snd (findFileRecord lang_indexed ''x.png'') = Some x_fr"
  by code_simp

subsection \<open>A candidate set that is rebalanced\<close>

text \<open>
  Four admissible candidates under the key \<open>x.png\<close>, inserted in the order
  \<open>en/HD\<close>, \<open>fr\<close>, \<open>SD\<close>, \<open>zz/HD\<close>. The second goes to the left of the first
  and the third to the left of the second, which rotates the tree: the second record
  becomes the root. The fourth record has the category and the language of the first;
  it is compared with the new root and with the third record, not with the first, and
  becomes the leftmost node. \<open>findFileRecord\<close> returns it.
\<close>

theorem findFileRecord_rebalanced:
  "map (\<lambda>fr. (category fr, languageId fr)) (records_at four_indexed ''x.png'')
     = [(''HD'', ''en''), ([], ''fr''), (''SD'', []), (''HD'', ''en'')] \<and>
   list_all (admissible four_indexed) (records_at four_indexed ''x.png'') \<and>
   map_tree (relativePath \<circ> snd) (searchRoots four_indexed ''x.png'' [[]] Leaf)
     = Node True (Node True (Node False Leaf ''zz/HD/x.png'' Leaf) ''SD/x.png'' Leaf)
         ''fr/x.png'' (Node True Leaf ''en/HD/x.png'' Leaf) \<and>
   map_option (relativePath \<circ> snd) (findFileRecord four_indexed ''x.png'') = Some ''zz/HD/x.png''"
  by code_simp

subsection \<open>Where the comparator is an order\<close>

lemma insert_node_ordered:
  fixes k :: "'a \<Rightarrow> 'k::linorder"
  assumes "\<forall>a \<in> S. \<forall>b \<in> S. cmp a b \<longleftrightarrow> k a > k b"
    and "set (inorder t) \<subseteq> S" and "v \<in> S" and "sorted_wrt (\<lambda>x y. k x > k y) (inorder t)"
  shows "sorted_wrt (\<lambda>x y. k x > k y) (inorder (tree_of (insert_node cmp v t))) \<and>
         (\<exists>x \<in> set (inorder (tree_of (insert_node cmp v t))). k x = k v)"
  using assms(2,4)
proof (induction t)
  case Leaf
  then show ?case by simp
next
  case (Node c l a r)
  have aS: "a \<in> S" and lS: "set (inorder l) \<subseteq> S" and rS: "set (inorder r) \<subseteq> S"
    using Node.prems(1) by auto
  have c1: "cmp v a \<longleftrightarrow> k v > k a" and c2: "cmp a v \<longleftrightarrow> k a > k v"
    using assms(1,3) aS by auto
  have sl: "sorted_wrt (\<lambda>x y. k x > k y) (inorder l)"
    and sr: "sorted_wrt (\<lambda>x y. k x > k y) (inorder r)"
    and la: "\<forall>x \<in> set (inorder l). k x > k a" and ar: "\<forall>y \<in> set (inorder r). k a > k y"
    and lr: "\<forall>x \<in> set (inorder l). \<forall>y \<in> set (inorder r). k x > k y"
    using Node.prems(2) by (auto simp: sorted_wrt_append)
  show ?case
  proof (cases "k v > k a")
    case True
    let ?l' = "inorder (tree_of (insert_node cmp v l))"
    have ih: "sorted_wrt (\<lambda>x y. k x > k y) ?l'" "\<exists>x \<in> set ?l'. k x = k v"
      using Node.IH(1)[OF lS sl] by auto
    have sub: "set ?l' \<subseteq> insert v (set (inorder l))" by (rule set_insert_node)
    have "\<forall>x \<in> set ?l'. k x > k a" using sub la True by auto
    moreover have "\<forall>x \<in> set ?l'. \<forall>y \<in> set (inorder r). k x > k y"
      using sub lr ar True by fastforce
    ultimately have "sorted_wrt (\<lambda>x y. k x > k y) (?l' @ a # inorder r)"
      using ih(1) sr ar by (auto simp: sorted_wrt_append)
    then show ?thesis
      unfolding inorder_insert_node using True c1 ih(2) by auto
  next
    case False
    show ?thesis
    proof (cases "k a > k v")
      case True
      let ?r' = "inorder (tree_of (insert_node cmp v r))"
      have ih: "sorted_wrt (\<lambda>x y. k x > k y) ?r'" "\<exists>x \<in> set ?r'. k x = k v"
        using Node.IH(2)[OF rS sr] by auto
      have sub: "set ?r' \<subseteq> insert v (set (inorder r))" by (rule set_insert_node)
      have "\<forall>y \<in> set ?r'. k a > k y" using sub ar True by auto
      moreover have "\<forall>x \<in> set (inorder l). \<forall>y \<in> set ?r'. k x > k y"
        using sub lr la True by fastforce
      ultimately have "sorted_wrt (\<lambda>x y. k x > k y) (inorder l @ a # ?r')"
        using ih(1) sl la by (auto simp: sorted_wrt_append)
      then show ?thesis
        unfolding inorder_insert_node using True False c1 c2 ih(2) by auto
    next
      case F2: False
      with False have "k a = k v" by simp
      then show ?thesis
        unfolding inorder_insert_node using False F2 c1 c2 Node.prems(2) by auto
    qed
  qed
qed

lemma set_insert_ordered:
  fixes k :: "'a \<Rightarrow> 'k::linorder"
  assumes "\<forall>a \<in> S. \<forall>b \<in> S. cmp a b \<longleftrightarrow> k a > k b"
    and "set_tree t \<subseteq> S" and "v \<in> S" and "ordered_by k t"
  shows "ordered_by k (set_insert cmp v t) \<and>
         set_tree (set_insert cmp v t) \<subseteq> S \<and>
         (\<exists>x \<in> set_tree (set_insert cmp v t). k x = k v)"
proof -
  have "set (inorder t) \<subseteq> S" using assms(2) by (simp add: set_inorder)
  from insert_node_ordered[OF assms(1) this assms(3)] assms(4)
  have "ordered_by k (set_insert cmp v t)"
    and "\<exists>x \<in> set_tree (set_insert cmp v t). k x = k v"
    by (simp_all add: ordered_by_def inorder_set_insert set_inorder[symmetric])
  moreover have "set_tree (set_insert cmp v t) \<subseteq> S"
    using set_tree_set_insert[of cmp v t] assms(2,3) by auto
  ultimately show ?thesis by simp
qed

lemma ordered_by_Leaf: "ordered_by k Leaf"
  by (simp add: ordered_by_def)

lemma set_begin_greatest:
  fixes k :: "'a \<Rightarrow> 'k::linorder"
  assumes "ordered_by k t" and "set_begin t = Some b"
  shows "\<forall>x \<in> set_tree t. k x \<le> k b"
proof -
  from assms(2) obtain xs where xs: "inorder t = b # xs"
    by (auto simp: set_begin_inorder split: list.splits)
  then have "\<forall>x \<in> set xs. k x < k b"
    using assms(1) by (simp add: ordered_by_def)
  then show ?thesis
    using xs by (auto simp: set_inorder[symmetric] intro: less_imp_le)
qed

lemma insertCandidates_mono:
  "set_tree d \<subseteq> set_tree (insertCandidates s xs d)"
proof (induction xs arbitrary: d)
  case Nil
  then show ?case by (simp add: insertCandidates_def)
next
  case (Cons y ys)
  let ?d' = "if admissible s (snd y) then set_insert candidatesOrder y d else d"
  have "set_tree d \<subseteq> set_tree ?d'"
    using set_tree_set_insert_mono[of d candidatesOrder y] by simp
  also have "\<dots> \<subseteq> set_tree (insertCandidates s ys ?d')"
    by (rule Cons)
  finally show ?case unfolding insertCandidates_step .
qed

lemma insertCandidates_ordered:
  fixes k :: "'w::len FileRecord_ref \<Rightarrow> 'k::linorder"
  assumes ord: "\<forall>a \<in> S. \<forall>b \<in> S. candidatesOrder a b \<longleftrightarrow> k a > k b"
    and "{r \<in> set refs. admissible s (snd r)} \<subseteq> S" and "set_tree c \<subseteq> S" and "ordered_by k c"
  shows "ordered_by k (insertCandidates s refs c) \<and>
         (\<forall>r \<in> set refs. admissible s (snd r) \<longrightarrow>
            (\<exists>x \<in> set_tree (insertCandidates s refs c). k x = k r))"
  using assms(2-)
proof (induction refs arbitrary: c)
  case Nil
  then show ?case by (simp add: insertCandidates_def)
next
  case (Cons r refs)
  let ?c' = "if admissible s (snd r) then set_insert candidatesOrder r c else c"
  have rest: "{r \<in> set refs. admissible s (snd r)} \<subseteq> S" using Cons.prems(1) by auto
  have c': "ordered_by k ?c' \<and> set_tree ?c' \<subseteq> S \<and>
            (admissible s (snd r) \<longrightarrow> (\<exists>x \<in> set_tree ?c'. k x = k r))"
  proof (cases "admissible s (snd r)")
    case True
    then have "r \<in> S" using Cons.prems(1) by auto
    from set_insert_ordered[OF ord Cons.prems(2) this Cons.prems(3)] True show ?thesis by simp
  next
    case False
    then show ?thesis using Cons.prems by simp
  qed
  from Cons.IH[OF rest, of ?c'] c'
  have ih: "ordered_by k (insertCandidates s refs ?c')"
    "\<forall>r \<in> set refs. admissible s (snd r) \<longrightarrow>
        (\<exists>x \<in> set_tree (insertCandidates s refs ?c'). k x = k r)"
    by auto
  have mono: "set_tree ?c' \<subseteq> set_tree (insertCandidates s refs ?c')"
    by (rule insertCandidates_mono)
  have head: "\<exists>x \<in> set_tree (insertCandidates s refs ?c'). k x = k r" if "admissible s (snd r)"
  proof -
    from c' that obtain x where "x \<in> set_tree ?c'" "k x = k r" by blast
    with mono show ?thesis by blast
  qed
  show ?case
    unfolding insertCandidates_step using ih head by auto
qed

text \<open>The tree that the loop over the search roots returns was filled from the
  vector under the key of one root.\<close>

lemma searchRoots_one_root:
  "searchRoots s key roots Leaf = Leaf \<or>
   (\<exists>root \<in> set roots. \<exists>v.
      filenameToRecordMap s (makeKey s (combine [root, key])) = Some v \<and>
      searchRoots s key roots Leaf
        = insertCandidates s (element_refs (makeKey s (combine [root, key])) v) Leaf)"
proof (induction roots)
  case Nil
  then show ?case by simp
next
  case (Cons root roots)
  let ?k = "makeKey s (combine [root, key])"
  show ?case
  proof (cases "filenameToRecordMap s ?k")
    case None
    then show ?thesis using Cons by auto
  next
    case (Some v)
    show ?thesis
    proof (cases "elems v = [] \<or> insertCandidates s (element_refs ?k v) Leaf = Leaf")
      case True
      then show ?thesis using Some Cons by (auto simp: Let_def)
    next
      case False
      then have "searchRoots s key (root # roots) Leaf = insertCandidates s (element_refs ?k v) Leaf"
        using Some by (simp add: Let_def)
      then show ?thesis using Some by auto
    qed
  qed
qed

text \<open>
  When the admissible records under the looked-up keys all have the same
  \<open>languageId\<close> (as they do whenever a current language is set), the comparator
  orders them by category, and \<open>findFileRecord\<close> returns a record of the greatest
  category among the admissible records of the search root that answers; so a record
  with a category is preferred over one without.
\<close>

theorem findFileRecord_greatest_category:
  fixes s :: "'w::len ResourcesManagerImpl"
  assumes same: "\<forall>root \<in> set (searchRootsList s). \<forall>fr \<in> stored_under s (makeKey s name) root.
                   admissible s fr \<longrightarrow> languageId fr = l"
    and found: "findFileRecord s name = Some (p, hit)"
  shows "\<exists>root \<in> set (searchRootsList s).
           hit \<in> stored_under s (makeKey s name) root \<and> admissible s hit \<and>
           (\<forall>fr \<in> stored_under s (makeKey s name) root.
              admissible s fr \<longrightarrow> category fr \<le> category hit \<and>
                                   (category fr \<noteq> [] \<longrightarrow> category hit \<noteq> []))"
proof -
  let ?key = "makeKey s name"
  let ?t = "searchRoots s ?key (searchRootsList s) Leaf"
  let ?cat = "\<lambda>r :: 'w FileRecord_ref. category (snd r)"
  have b: "set_begin ?t = Some (p, hit)" using found by (simp add: findFileRecord_def Let_def)
  then have "?t \<noteq> Leaf" by auto
  with searchRoots_one_root[of s ?key "searchRootsList s"]
  obtain root v where root: "root \<in> set (searchRootsList s)"
    "filenameToRecordMap s (makeKey s (combine [root, ?key])) = Some v"
    "?t = insertCandidates s (element_refs (makeKey s (combine [root, ?key])) v) Leaf"
    by blast
  let ?refs = "element_refs (makeKey s (combine [root, ?key])) v"
  let ?S = "{r \<in> set ?refs. admissible s (snd r)}"
  have st: "stored_under s ?key root = snd ` set ?refs"
    by (simp add: stored_under_Some[OF root(2)] snd_element_refs)
  have lang: "\<forall>r \<in> ?S. languageId (snd r) = l"
    using same root(1) st by auto
  have ord: "\<forall>a \<in> ?S. \<forall>b \<in> ?S. candidatesOrder a b \<longleftrightarrow> ?cat a > ?cat b"
    using lang by (auto simp: candidatesOrder_def)
  from insertCandidates_ordered[OF ord, of ?refs s Leaf] ordered_by_Leaf[of ?cat]
  have o: "ordered_by ?cat ?t"
    and all: "\<forall>r \<in> set ?refs. admissible s (snd r) \<longrightarrow> (\<exists>x \<in> set_tree ?t. ?cat x = ?cat r)"
    unfolding root(3) by auto
  from set_begin_greatest[OF o b]
  have top: "\<forall>x \<in> set_tree ?t. category (snd x) \<le> category hit" by simp
  have hit: "(p, hit) \<in> ?S"
    using set_begin_Some[OF b] insertCandidates_set[of s ?refs Leaf] unfolding root(3) by auto
  have "category fr \<le> category hit \<and> (category fr \<noteq> [] \<longrightarrow> category hit \<noteq> [])"
    if "fr \<in> stored_under s ?key root" "admissible s fr" for fr
  proof -
    from that(1) st obtain r where r: "r \<in> set ?refs" "snd r = fr" by auto
    with that(2) all obtain x where "x \<in> set_tree ?t" "category (snd x) = category fr"
      by auto
    with top have le: "category fr \<le> category hit" by auto
    moreover have "category hit \<noteq> []" if "category fr \<noteq> []"
    proof
      assume "category hit = []"
      with le have "category fr \<le> []" by simp
      then have "category fr = []" by (cases "category fr") simp_all
      with that show False by simp
    qed
    ultimately show ?thesis by simp
  qed
  moreover have "hit \<in> stored_under s ?key root" "admissible s hit"
    using hit st by force+
  ultimately show ?thesis using root(1) by auto
qed

text \<open>An instance: the two \<open>sprite.png\<close> records, both without language.\<close>

theorem findFileRecord_greatest_category_witness:
  "searchRootsList hd_indexed = [[]] \<and>
   list_all (\<lambda>fr. languageId fr = []) (records_at hd_indexed ''sprite.png'') \<and>
   map_option snd (findFileRecord hd_indexed ''sprite.png'') = Some sprite_hd \<and>
   sprite_generic \<in> stored_under hd_indexed (makeKey hd_indexed ''sprite.png'') [] \<and>
   admissible hd_indexed sprite_generic \<and>
   category sprite_generic \<le> category sprite_hd \<and>
   category sprite_hd \<noteq> []"
proof -
  have roots: "searchRootsList hd_indexed = [[]]"
    by (simp add: hd_indexed_eq)
  have st: "stored_under hd_indexed (makeKey hd_indexed ''sprite.png'') [] = {sprite_generic, sprite_hd}"
    by (simp add: stored_under_def records_at_def hd_indexed_eq path_eval)
  have langs: "list_all (\<lambda>fr. languageId fr = []) (records_at hd_indexed ''sprite.png'')"
    by code_simp
  have same: "\<forall>root \<in> set (searchRootsList hd_indexed).
                \<forall>fr \<in> stored_under hd_indexed (makeKey hd_indexed ''sprite.png'') root.
                   admissible hd_indexed fr \<longrightarrow> languageId fr = []"
    unfolding roots using st by (simp add: sprite_generic_def sprite_hd_def)
  have adm: "admissible hd_indexed sprite_generic" by code_simp
  have mem: "sprite_generic \<in> stored_under hd_indexed (makeKey hd_indexed ''sprite.png'') []"
    using st by simp
  from findFileRecord_greatest_category[OF same hd_find] roots mem adm
  have "category sprite_generic \<le> category sprite_hd" by auto
  moreover have "category sprite_hd \<noteq> []" by (simp add: sprite_hd_def)
  ultimately show ?thesis using roots langs hd_find mem adm by simp
qed

subsection \<open>C2: the admissibility filter\<close>

text \<open>
  C2: \<open>findFileRecord\<close> only returns a pointer to a record that is stored under the
  key of one of the search roots and passes the filter (the current language is empty
  or equals the record's, and the record's category is empty or enabled); it returns a
  record exactly when some stored record under such a key passes the filter. After
  \<open>disableCategory(c)\<close> no record tagged \<open>c\<close> is returned, and the lookup still
  succeeds when a record without category (and of a fitting language) is stored under
  the key.
\<close>

theorem findFileRecord_admissibility:
  fixes s :: "'w::len ResourcesManagerImpl"
  shows
    "(findFileRecord s name = Some (p, fr) \<longrightarrow>
        deref s p = Some fr \<and>
        (\<exists>root \<in> set (searchRootsList s). fr \<in> stored_under s (makeKey s name) root) \<and>
        (languageId' s = [] \<or> languageId fr = languageId' s) \<and>
        (category fr = [] \<or> category fr \<in> enabledCategories s)) \<and>
     (findFileRecord s name \<noteq> None \<longleftrightarrow>
        (\<exists>root \<in> set (searchRootsList s). \<exists>cand \<in> stored_under s (makeKey s name) root.
           (languageId' s = [] \<or> languageId cand = languageId' s) \<and>
           (category cand = [] \<or> category cand \<in> enabledCategories s))) \<and>
     (c \<noteq> [] \<longrightarrow> findFileRecord (disableCategory c s) name = Some (q, hit) \<longrightarrow> category hit \<noteq> c) \<and>
     (root \<in> set (searchRootsList s) \<longrightarrow> g \<in> stored_under s (makeKey s name) root \<longrightarrow>
        category g = [] \<longrightarrow> (languageId' s = [] \<or> languageId g = languageId' s) \<longrightarrow>
        findFileRecord (disableCategory c s) name \<noteq> None)"
proof (intro conjI impI)
  assume "findFileRecord s name = Some (p, fr)"
  from findFileRecord_Some[OF this]
  show "deref s p = Some fr"
    and "\<exists>root \<in> set (searchRootsList s). fr \<in> stored_under s (makeKey s name) root"
    and "languageId' s = [] \<or> languageId fr = languageId' s"
    and "category fr = [] \<or> category fr \<in> enabledCategories s"
    by (auto simp: admissible_def)
next
  show "findFileRecord s name \<noteq> None \<longleftrightarrow>
        (\<exists>root \<in> set (searchRootsList s). \<exists>cand \<in> stored_under s (makeKey s name) root.
           (languageId' s = [] \<or> languageId cand = languageId' s) \<and>
           (category cand = [] \<or> category cand \<in> enabledCategories s))"
    using findFileRecord_None_iff[of s name] by (simp add: admissible_def)
next
  assume "c \<noteq> []" and "findFileRecord (disableCategory c s) name = Some (q, hit)"
  from findFileRecord_Some[OF this(2)] \<open>c \<noteq> []\<close> show "category hit \<noteq> c"
    by (auto simp: admissible_def disableCategory_def)
next
  assume r: "root \<in> set (searchRootsList s)" and g: "g \<in> stored_under s (makeKey s name) root"
    and cat: "category g = []" and lang: "languageId' s = [] \<or> languageId g = languageId' s"
  have same: "stored_under (disableCategory c s) (makeKey (disableCategory c s) name) root
                = stored_under s (makeKey s name) root"
    by (simp add: stored_under_def records_at_def makeKey_def disableCategory_def)
  have "admissible (disableCategory c s) g"
    using cat lang by (simp add: admissible_def disableCategory_def)
  moreover have "root \<in> set (searchRootsList (disableCategory c s))"
    using r by (simp add: disableCategory_def)
  ultimately show "findFileRecord (disableCategory c s) name \<noteq> None"
    using g same findFileRecord_None_iff[of "disableCategory c s" name] by blast
qed

text \<open>The witness of C2: the two \<open>sprite.png\<close> records, with and without the category
  \<open>HD\<close> enabled.\<close>

theorem findFileRecord_admissibility_witness:
  "map_option snd (findFileRecord hd_indexed ''sprite.png'') = Some sprite_hd \<and>
   sprite_hd \<in> stored_under hd_indexed (makeKey hd_indexed ''sprite.png'') [] \<and>
   category sprite_hd \<in> enabledCategories hd_indexed \<and>
   map_option snd (findFileRecord (disableCategory ''HD'' hd_indexed) ''sprite.png'')
     = Some sprite_generic \<and>
   category sprite_generic \<noteq> ''HD'' \<and>
   sprite_generic \<in> stored_under hd_indexed (makeKey hd_indexed ''sprite.png'') [] \<and>
   category sprite_generic = []"
proof -
  note T = findFileRecord_admissibility[of hd_indexed "''sprite.png''"
      "\<lparr>vector_key = ''sprite.png'', buffer_address = 2, element_index = 1\<rparr>" sprite_hd "''HD''"
      "\<lparr>vector_key = ''sprite.png'', buffer_address = 2, element_index = 0\<rparr>" sprite_generic
      "[]" sprite_generic]
  have roots: "searchRootsList hd_indexed = [[]]" and lang: "languageId' hd_indexed = []"
    by (simp_all add: hd_indexed_eq)
  have g: "sprite_generic \<in> stored_under hd_indexed (makeKey hd_indexed ''sprite.png'') []"
    by (simp add: stored_under_def records_at_def hd_indexed_eq path_eval)
  have "sprite_hd \<in> stored_under hd_indexed (makeKey hd_indexed ''sprite.png'') []"
    and "category sprite_hd = [] \<or> category sprite_hd \<in> enabledCategories hd_indexed"
    and "category sprite_generic \<noteq> ''HD''"
    using T hd_find hd_disabled_find roots by auto
  moreover have "category sprite_hd \<noteq> []" and "category sprite_generic = []"
    by (simp_all add: sprite_hd_def sprite_generic_def)
  ultimately show ?thesis
    using hd_find hd_disabled_find g by simp
qed

subsection \<open>Joining path components\<close>

lemma combine_slashed: "combine xs = butlast (slashed xs)"
  by (simp add: combine_def slashed_def Let_def butlast_conv_take)

lemma slashed_append: "slashed (xs @ ys) = slashed xs @ slashed ys"
  by (simp add: slashed_def)

lemma slashed_Cons: "slashed (x # xs) = (if x = [] then [] else x @ ''/'') @ slashed xs"
  by (simp add: slashed_def)

lemma slashed_last: "slashed xs \<noteq> [] \<Longrightarrow> \<exists>p. slashed xs = p @ ''/'' \<and> p \<noteq> []"
proof (induction xs rule: rev_induct)
  case Nil
  then show ?case by (simp add: slashed_def)
next
  case (snoc x xs)
  show ?case
  proof (cases "x = []")
    case True
    then show ?thesis using snoc by (simp add: slashed_append slashed_Cons) (simp add: slashed_def)
  next
    case False
    then have "slashed (xs @ [x]) = (slashed xs @ x) @ ''/''"
      by (simp add: slashed_append slashed_Cons) (simp add: slashed_def)
    moreover have "slashed xs @ x \<noteq> []" using False by simp
    ultimately show ?thesis by blast
  qed
qed

lemma slashed_combine: "slashed [combine xs] = slashed xs"
proof (cases "slashed xs = []")
  case True
  then show ?thesis by (simp add: combine_slashed slashed_def)
next
  case False
  then obtain p where p: "slashed xs = p @ ''/''" "p \<noteq> []" using slashed_last by blast
  then have "combine xs = p" by (simp add: combine_slashed butlast_append)
  then show ?thesis using p by (simp add: slashed_def)
qed

lemma combine_nested: "combine (combine xs # ys) = combine (xs @ ys)"
proof -
  have "slashed (combine xs # ys) = slashed [combine xs] @ slashed ys"
    using slashed_append[of "[combine xs]" ys] by simp
  also have "\<dots> = slashed (xs @ ys)"
    by (simp only: slashed_combine slashed_append)
  finally have "butlast (slashed (combine xs # ys)) = butlast (slashed (xs @ ys))"
    by simp
  then show ?thesis
    by (simp only: combine_slashed)
qed

lemma combine_pair_nested: "combine [combine xs, y] = combine (xs @ [y])"
  using combine_nested[of xs "[y]"] by simp


lemma combine_Nil_Cons: "combine ([] # xs) = combine xs"
  by (simp add: combine_def)

subsection \<open>The walk of a directory tree\<close>

lemma push_back_record_frame:
  "push_back_record key fr s =
     s\<lparr>filenameToRecordMap := filenameToRecordMap (push_back_record key fr s),
       next_address := next_address (push_back_record key fr s)\<rparr>"
  by (simp add: push_back_record_def Let_def split: prod.splits)

lemma push_back_record_records_at:
  "records_at (push_back_record key fr s) k = records_at s k @ (if k = key then [fr] else [])"
  by (simp add: push_back_record_def records_at_def vector_push_back_def Let_def
           split: option.splits)

lemma walk_frame:
  fixes s :: "'w::len ResourcesManagerImpl"
  shows "addFolderRecursive stat root rel relMap lang cat dp s
           = s\<lparr>filenameToRecordMap :=
                 filenameToRecordMap (addFolderRecursive stat root rel relMap lang cat dp s),
               next_address := next_address (addFolderRecursive stat root rel relMap lang cat dp s)\<rparr>"
    and "readdir_loop stat root rel relMap lang cat es s
           = s\<lparr>filenameToRecordMap :=
                 filenameToRecordMap (readdir_loop stat root rel relMap lang cat es s),
               next_address := next_address (readdir_loop stat root rel relMap lang cat es s)\<rparr>"
    and "loop_body stat root rel relMap lang cat ep s
           = s\<lparr>filenameToRecordMap :=
                 filenameToRecordMap (loop_body stat root rel relMap lang cat ep s),
               next_address := next_address (loop_body stat root rel relMap lang cat ep s)\<rparr>"
proof (induction stat root rel relMap lang cat dp s and stat root rel relMap lang cat es s
         and stat root rel relMap lang cat ep s
       rule: addFolderRecursive_readdir_loop_loop_body.induct)
  case (1 stat rootFolder relativeFolder relativeFolderInMap lang cat s)
  then show ?case by simp
next
  case (2 stat rootFolder relativeFolder relativeFolderInMap lang cat dp s)
  then show ?case by simp
next
  case (3 stat rootFolder relativeFolder relativeFolderInMap lang cat s)
  then show ?case by simp
next
  case (4 stat rootFolder relativeFolder relativeFolderInMap lang cat ep rest s)
  let ?s1 = "loop_body stat rootFolder relativeFolder relativeFolderInMap lang cat ep s"
  let ?s2 = "readdir_loop stat rootFolder relativeFolder relativeFolderInMap lang cat rest ?s1"
  have a: "?s1 = s\<lparr>filenameToRecordMap := filenameToRecordMap ?s1,
                      next_address := next_address ?s1\<rparr>" by (rule 4(1))
  have b: "?s2 = ?s1\<lparr>filenameToRecordMap := filenameToRecordMap ?s2,
                       next_address := next_address ?s2\<rparr>" by (rule 4(2))
  have "?s2 = s\<lparr>filenameToRecordMap := filenameToRecordMap ?s2,
                  next_address := next_address ?s2\<rparr>"
    by (subst b, subst a) simp
  then show ?case by simp
next
  case (5 stat rootFolder relativeFolder relativeFolderInMap lang cat name dp s)
  show ?case
  proof (cases "hidden name")
    case True
    then show ?thesis by simp
  next
    case False
    then show ?thesis
      using 5 by (simp add: Let_def split: prod.splits option.splits)
  qed
next
  case (6 stat rootFolder relativeFolder relativeFolderInMap lang cat name s)
  show ?case
  proof (cases "hidden name")
    case True
    then show ?thesis by simp
  next
    case False
    then show ?thesis
      using push_back_record_frame by (simp add: Let_def)
  qed
qed

lemma walk_ok_refl: "walk_ok stat root rel relMap [] s s"
  by (simp add: walk_ok_def)

lemma same_cfg_leaf_key:
  assumes "s1 = s\<lparr>filenameToRecordMap := m, next_address := n\<rparr>"
  shows "leaf_key s1 relMap leaf = leaf_key s relMap leaf"
  using assms by (simp add: leaf_key_def makeKey_def)

lemma walk_ok_trans:
  assumes a: "walk_ok stat root rel relMap l1 s s1"
    and b: "walk_ok stat root rel relMap l2 s1 s2"
    and cfg: "s1 = s\<lparr>filenameToRecordMap := m, next_address := n\<rparr>"
  shows "walk_ok stat root rel relMap (l1 @ l2) s s2"
proof -
  have lk: "\<And>leaf. leaf_key s1 relMap leaf = leaf_key s relMap leaf"
    using cfg by (rule same_cfg_leaf_key)
  have new: "\<exists>new. records_at s2 k = records_at s k @ new \<and>
           (\<forall>fr \<in> set new. \<exists>leaf \<in> set (l1 @ l2).
               is_record_of stat root rel leaf fr \<and> k = leaf_key s relMap leaf)" for k
  proof -
    from a obtain n1 where n1: "records_at s1 k = records_at s k @ n1"
      "\<forall>fr \<in> set n1. \<exists>leaf \<in> set l1. is_record_of stat root rel leaf fr \<and> k = leaf_key s relMap leaf"
      unfolding walk_ok_def by blast
    from b obtain n2 where n2: "records_at s2 k = records_at s1 k @ n2"
      "\<forall>fr \<in> set n2. \<exists>leaf \<in> set l2. is_record_of stat root rel leaf fr \<and> k = leaf_key s1 relMap leaf"
      unfolding walk_ok_def by blast
    have "records_at s2 k = records_at s k @ (n1 @ n2)" using n1(1) n2(1) by simp
    moreover have "\<forall>fr \<in> set (n1 @ n2). \<exists>leaf \<in> set (l1 @ l2).
               is_record_of stat root rel leaf fr \<and> k = leaf_key s relMap leaf"
      using n1(2) n2(2) lk by auto
    ultimately show ?thesis by blast
  qed
  have has: "\<exists>fr \<in> set (records_at s2 (leaf_key s relMap leaf)). is_record_of stat root rel leaf fr"
    if "leaf \<in> set (l1 @ l2)" for leaf
  proof (cases "leaf \<in> set l1")
    case True
    with a obtain fr where fr: "fr \<in> set (records_at s1 (leaf_key s relMap leaf))"
      "is_record_of stat root rel leaf fr"
      unfolding walk_ok_def by blast
    from b obtain n2 where "records_at s2 (leaf_key s relMap leaf) = records_at s1 (leaf_key s relMap leaf) @ n2"
      unfolding walk_ok_def by blast
    with fr show ?thesis by auto
  next
    case False
    with that have "leaf \<in> set l2" by simp
    with b show ?thesis unfolding walk_ok_def using lk by auto
  qed
  show ?thesis unfolding walk_ok_def using new has by blast
qed

lemma walk_ok_descend:
  fixes s :: "'w::len ResourcesManagerImpl"
  assumes ih: "walk_ok stat root (combine [rel, name])
                 (case map_find (relativeFolderToCategoryMap s) name of
                    Some c \<Rightarrow> relMap | None \<Rightarrow> combine [relMap, name]) leaves s s'"
  shows "walk_ok stat root rel relMap (map (\<lambda>(dirs, f). (name # dirs, f)) leaves) s s'"
proof -
  let ?relMap' = "case map_find (relativeFolderToCategoryMap s) name of
                    Some c \<Rightarrow> relMap | None \<Rightarrow> combine [relMap, name]"
  let ?up = "\<lambda>(dirs, f). (name # dirs, f)"
  have rec: "is_record_of stat root (combine [rel, name]) leaf fr
               = is_record_of stat root rel (?up leaf) fr" for leaf and fr :: "'w FileRecord"
    using combine_nested[of "[rel, name]" "fst leaf @ [snd leaf]"]
    by (cases leaf) (simp add: is_record_of_def)
  have key: "leaf_key s ?relMap' leaf = leaf_key s relMap (?up leaf)" for leaf
  proof (cases "map_find (relativeFolderToCategoryMap s) name")
    case None
    then show ?thesis
      using combine_nested[of "[relMap, name]"
          "key_folders (relativeFolderToCategoryMap s) (fst leaf) @ [snd leaf]"]
      by (cases leaf) (simp add: leaf_key_def key_folders_def)
  next
    case (Some c)
    then show ?thesis by (cases leaf) (simp add: leaf_key_def key_folders_def)
  qed
  show ?thesis
    unfolding walk_ok_def
  proof (intro conjI allI ballI)
    fix k
    from ih obtain new where new: "records_at s' k = records_at s k @ new"
      "\<forall>fr \<in> set new. \<exists>leaf \<in> set leaves.
          is_record_of stat root (combine [rel, name]) leaf fr \<and> k = leaf_key s ?relMap' leaf"
      unfolding walk_ok_def by blast
    have "\<forall>fr \<in> set new. \<exists>leaf \<in> set (map ?up leaves).
          is_record_of stat root rel leaf fr \<and> k = leaf_key s relMap leaf"
    proof
      fix fr assume "fr \<in> set new"
      with new(2) obtain leaf where "leaf \<in> set leaves"
        "is_record_of stat root (combine [rel, name]) leaf fr" "k = leaf_key s ?relMap' leaf"
        by blast
      then have "?up leaf \<in> set (map ?up leaves)" "is_record_of stat root rel (?up leaf) fr"
        "k = leaf_key s relMap (?up leaf)"
        using rec key by auto
      then show "\<exists>leaf \<in> set (map ?up leaves).
          is_record_of stat root rel leaf fr \<and> k = leaf_key s relMap leaf"
        by blast
    qed
    with new(1) show "\<exists>new. records_at s' k = records_at s k @ new \<and>
        (\<forall>fr \<in> set new. \<exists>leaf \<in> set (map ?up leaves).
            is_record_of stat root rel leaf fr \<and> k = leaf_key s relMap leaf)"
      by blast
  next
    fix leaf assume "leaf \<in> set (map ?up leaves)"
    then obtain l0 where l0: "l0 \<in> set leaves" "leaf = ?up l0" by auto
    with ih obtain fr where "fr \<in> set (records_at s' (leaf_key s ?relMap' l0))"
      "is_record_of stat root (combine [rel, name]) l0 fr"
      unfolding walk_ok_def by blast
    then show "\<exists>fr \<in> set (records_at s' (leaf_key s relMap leaf)). is_record_of stat root rel leaf fr"
      using rec key l0(2) by auto
  qed
qed

lemma walk_ok_file:
  fixes s :: "'w::len ResourcesManagerImpl"
  assumes "\<not> hidden name"
  shows "walk_ok stat root rel relMap [([], name)] s
           (loop_body stat root rel relMap lang cat (NotDir name) s)"
proof -
  let ?key = "makeKey s (combine [relMap, name])"
  let ?fr = "\<lparr>filename = name, fileType = RegularFile,
              size' = getFileSize stat (combine [root, combine [rel, name]]),
              languageId = lang, category = cat, filePath = combine [root, combine [rel, name]],
              relativePath = combine [rel, name], zipFilePath = [], zipFilePos = 0\<rparr> :: 'w FileRecord"
  have s': "loop_body stat root rel relMap lang cat (NotDir name) s = push_back_record ?key ?fr s"
    using assms by (simp add: Let_def)
  have rec: "is_record_of stat root rel ([], name) ?fr"
    by (simp add: is_record_of_def)
  have key: "leaf_key s relMap ([], name) = ?key"
    by (simp add: leaf_key_def key_folders_def)
  have at: "records_at (push_back_record ?key ?fr s) k
              = records_at s k @ (if k = ?key then [?fr] else [])" for k
    by (rule push_back_record_records_at)
  show ?thesis
    unfolding walk_ok_def s'
  proof (intro conjI allI ballI)
    fix k
    show "\<exists>new. records_at (push_back_record ?key ?fr s) k = records_at s k @ new \<and>
        (\<forall>fr \<in> set new. \<exists>leaf \<in> set [([], name)].
            is_record_of stat root rel leaf fr \<and> k = leaf_key s relMap leaf)"
      using at[of k] rec key by (cases "k = ?key") auto
  next
    fix leaf :: "string list \<times> string" assume "leaf \<in> set [([], name)]"
    then have "leaf = ([], name)" by simp
    then show "\<exists>fr \<in> set (records_at (push_back_record ?key ?fr s) (leaf_key s relMap leaf)).
        is_record_of stat root rel leaf fr"
      using at[of ?key] rec key by auto
  qed
qed

lemma walk_ok_all:
  fixes s :: "'w::len ResourcesManagerImpl"
  shows "walk_ok stat root rel relMap (visible_opt dp) s
           (addFolderRecursive stat root rel relMap lang cat dp s)"
    and "walk_ok stat root rel relMap (visible_files es) s
           (readdir_loop stat root rel relMap lang cat es s)"
    and "walk_ok stat root rel relMap (visible_in ep) s
           (loop_body stat root rel relMap lang cat ep s)"
proof (induction stat root rel relMap lang cat dp s and stat root rel relMap lang cat es s
         and stat root rel relMap lang cat ep s
       rule: addFolderRecursive_readdir_loop_loop_body.induct)
  case (1 stat rootFolder relativeFolder relativeFolderInMap lang cat s)
  then show ?case by (simp add: visible_opt_def walk_ok_refl)
next
  case (2 stat rootFolder relativeFolder relativeFolderInMap lang cat dp s)
  then show ?case by (simp add: visible_opt_def)
next
  case (3 stat rootFolder relativeFolder relativeFolderInMap lang cat s)
  then show ?case by (simp add: walk_ok_refl)
next
  case (4 stat rootFolder relativeFolder relativeFolderInMap lang cat ep rest s)
  let ?s1 = "loop_body stat rootFolder relativeFolder relativeFolderInMap lang cat ep s"
  have cfg: "?s1 = s\<lparr>filenameToRecordMap := filenameToRecordMap ?s1,
                        next_address := next_address ?s1\<rparr>"
    by (rule walk_frame(3))
  show ?case
    using walk_ok_trans[OF 4(1) 4(2) cfg] by simp
next
  case (5 stat rootFolder relativeFolder relativeFolderInMap lang cat name dp s)
  show ?case
  proof (cases "hidden name")
    case True
    then show ?thesis by (cases dp) (simp_all add: walk_ok_refl)
  next
    case False
    let ?relMap' = "case map_find (relativeFolderToCategoryMap s) name of
                    Some c \<Rightarrow> relativeFolderInMap | None \<Rightarrow> combine [relativeFolderInMap, name]"
    let ?lang' = "case map_find (relativeFolderToLanguageIdMap s) (combine [relativeFolder, name]) of
                    Some l \<Rightarrow> l | None \<Rightarrow> lang"
    let ?cat' = "case map_find (relativeFolderToCategoryMap s) name of
                    Some c \<Rightarrow> c | None \<Rightarrow> cat"
    have body: "loop_body stat rootFolder relativeFolder relativeFolderInMap lang cat (Dir name dp) s
            = addFolderRecursive stat rootFolder (combine [relativeFolder, name]) ?relMap' ?lang' ?cat' dp s"
      using False by (simp add: Let_def split: option.splits)
    have "walk_ok stat rootFolder (combine [relativeFolder, name]) ?relMap' (visible_opt dp) s
            (addFolderRecursive stat rootFolder (combine [relativeFolder, name]) ?relMap' ?lang' ?cat' dp s)"
      using 5[OF False refl refl refl] by (auto split: option.splits)
    from walk_ok_descend[OF this] have
      "walk_ok stat rootFolder relativeFolder relativeFolderInMap
         (map (\<lambda>(dirs, f). (name # dirs, f)) (visible_opt dp)) s
         (loop_body stat rootFolder relativeFolder relativeFolderInMap lang cat (Dir name dp) s)"
      unfolding body .
    moreover have "visible_in (Dir name dp) = map (\<lambda>(dirs, f). (name # dirs, f)) (visible_opt dp)"
      using False by (cases dp) (simp_all add: visible_opt_def)
    ultimately show ?thesis by simp
  qed
next
  case (6 stat rootFolder relativeFolder relativeFolderInMap lang cat name s)
  show ?case
  proof (cases "hidden name")
    case True
    then show ?thesis by (simp add: walk_ok_refl)
  next
    case False
    then show ?thesis using walk_ok_file[OF False] by simp
  qed
qed

lemma addRootFolder_new_records:
  fixes s :: "'w::len ResourcesManagerImpl"
  assumes "records_at (addRootFolder stat dp root s) key = records_at s key @ new"
    and "fr \<in> set new"
  shows "\<exists>leaf \<in> set (visible_opt dp). is_record_of stat root [] leaf fr \<and>
           key = leaf_key s [] leaf"
proof -
  let ?s0 = "s\<lparr>rootFoldersList := rootFoldersList s @ [root]\<rparr>"
  have at0: "records_at ?s0 key = records_at s key" by (simp add: records_at_def)
  have lk: "leaf_key ?s0 [] leaf = leaf_key s [] leaf" for leaf
    by (simp add: leaf_key_def makeKey_def)
  from walk_ok_all(1)[of stat root "[]" "[]" dp ?s0 "[]" "[]"]
  obtain new' where n: "records_at (addRootFolder stat dp root s) key = records_at ?s0 key @ new'"
    "\<forall>fr \<in> set new'. \<exists>leaf \<in> set (visible_opt dp).
        is_record_of stat root [] leaf fr \<and> key = leaf_key ?s0 [] leaf"
    unfolding walk_ok_def addRootFolder_def by blast
  from n(1) assms(1) at0 have "new' = new" by simp
  with n(2) assms(2) lk show ?thesis by auto
qed

lemma getFileSize_failed:
  "stat path = None \<Longrightarrow> (getFileSize stat path :: 'w::len word) = - 1"
  by (simp add: getFileSize_def)

lemma unat_minus_one_word: "unat (- 1 :: 'w::len word) = 2 ^ LENGTH('w) - 1"
  by (simp add: unsigned_minus_1_eq_mask mask_eq_exp_minus_1)

text \<open>
  \<open>addRootFolder\<close> appends the root folder to the list of root folders and changes
  the record store (and with it the allocator's next address); every other field of
  the manager stays as it is.
\<close>

theorem addRootFolder_frame:
  "addRootFolder stat dp rootFolder s =
     s\<lparr>rootFoldersList := rootFoldersList s @ [rootFolder],
       filenameToRecordMap := filenameToRecordMap (addRootFolder stat dp rootFolder s),
       next_address := next_address (addRootFolder stat dp rootFolder s)\<rparr>"
proof -
  let ?s0 = "s\<lparr>rootFoldersList := rootFoldersList s @ [rootFolder]\<rparr>"
  have "addRootFolder stat dp rootFolder s
          = ?s0\<lparr>filenameToRecordMap := filenameToRecordMap (addRootFolder stat dp rootFolder s),
                next_address := next_address (addRootFolder stat dp rootFolder s)\<rparr>"
    unfolding addRootFolder_def by (rule walk_frame(1))
  then show ?thesis by simp
qed

subsection \<open>C10: the size of a file whose size query failed\<close>

text \<open>What the owned-buffer \<open>readData\<close> does once the name resolves to a
  regular-file record: it asks \<open>new\<close> for as many bytes as the record's size, and
  nothing else decides between \<open>bad_alloc\<close> and the read.\<close>

lemma readData_owned_regular:
  assumes "findFileRecord t name = Some (p, fr)" and "fileType fr = RegularFile"
  shows "readData_owned t w new_array name =
           (if \<not> new_array (unat (size' fr)) then (Inl bad_alloc, w)
            else let (bytesRead, w1) = readDataFromRegularFile w (filePath fr) (ucast (size' fr))
                 in if bytesRead \<noteq> size' fr then (Inl std_exception, w1)
                    else (Inr (Some bytesRead), w1))"
  using assms by (simp add: readData_owned_def readData_record_def split: prod.splits)

lemma readData_owned_bad_alloc_iff:
  assumes "findFileRecord t name = Some (p, fr)" and "fileType fr = RegularFile"
  shows "fst (readData_owned t w new_array name) = Inl bad_alloc \<longleftrightarrow> \<not> new_array (unat (size' fr))"
  using assms by (simp add: readData_owned_regular Let_def split: prod.splits)

text \<open>
  C10: a record that \<open>addRootFolder\<close> adds for a file whose \<open>stat\<close> fails is a
  regular-file record whose size field is the \<open>size_t\<close> conversion of the \<open>-1\<close> that
  \<open>getFileSize\<close> returns, that is \<open>2 ^ w - 1\<close> for the width \<open>w\<close> of \<open>size_t\<close>.
  Whenever a filename resolves to that record, \<open>getSize\<close> returns this value (not 0
  and, being unsigned, not a negative number), and the variant of \<open>readData\<close> that
  returns an owned buffer asks \<open>new\<close> for that many bytes: it ends with
  \<open>bad_alloc\<close> exactly when an array of \<open>2 ^ w - 1\<close> bytes cannot be allocated, whether
  any other size can be allocated makes no difference, and when the array is allocated
  it goes on to read the file with the size converted to \<open>int\<close> and throws unless
  \<open>2 ^ w - 1\<close> bytes were read.
\<close>

theorem stat_failure_size:
  fixes s t :: "'w::len ResourcesManagerImpl"
  assumes "records_at (addRootFolder stat dp root s) key = records_at s key @ new"
    and "fr \<in> set new"
    and "stat (filePath fr) = None"
  shows "fileType fr = RegularFile \<and>
         sint (getFileSize stat (filePath fr) :: 'w word) = - 1 \<and>
         size' fr = getFileSize stat (filePath fr) \<and>
         unat (size' fr) = 2 ^ LENGTH('w) - 1 \<and>
         (findFileRecord t name = Some (p, fr) \<longrightarrow>
            unat (getSize t name) = 2 ^ LENGTH('w) - 1 \<and>
            (\<not> new_array (2 ^ LENGTH('w) - 1) \<longrightarrow>
               readData_owned t w new_array name = (Inl bad_alloc, w)) \<and>
            (fst (readData_owned t w new_array name) = Inl bad_alloc \<longleftrightarrow>
               \<not> new_array (2 ^ LENGTH('w) - 1)) \<and>
            (new_array (2 ^ LENGTH('w) - 1) = new_array' (2 ^ LENGTH('w) - 1) \<longrightarrow>
               readData_owned t w new_array name = readData_owned t w new_array' name) \<and>
            (new_array (2 ^ LENGTH('w) - 1) \<longrightarrow>
               readData_owned t w new_array name =
                 (let (bytesRead, w1) =
                        readDataFromRegularFile w (filePath fr) (ucast (- 1 :: 'w word))
                  in if unat bytesRead \<noteq> 2 ^ LENGTH('w) - 1 then (Inl std_exception, w1)
                     else (Inr (Some bytesRead), w1))))"
proof -
  from addRootFolder_new_records[OF assms(1,2)] obtain leaf
    where leaf: "is_record_of stat root [] leaf fr" by blast
  have sz: "size' fr = - 1"
    using leaf assms(3) by (simp add: is_record_of_def getFileSize_failed)
  have u: "unat (size' fr) = 2 ^ LENGTH('w) - 1"
    using sz by (simp add: unat_minus_one_word)
  have ft: "fileType fr = RegularFile" using leaf by (simp add: is_record_of_def)
  have ne: "x \<noteq> size' fr \<longleftrightarrow> unat x \<noteq> 2 ^ LENGTH('w) - 1" for x :: "'w word"
    using u by (metis unsigned_word_eqI)
  have "sint (getFileSize stat (filePath fr) :: 'w word) = - 1"
    using assms(3) by (simp add: getFileSize_failed)
  moreover have "size' fr = getFileSize stat (filePath fr)"
    using leaf by (simp add: is_record_of_def)
  moreover have "unat (getSize t name) = 2 ^ LENGTH('w) - 1"
    if "findFileRecord t name = Some (p, fr)"
    using that u by (simp add: getSize_def)
  moreover have "readData_owned t w new_array name = (Inl bad_alloc, w)"
    if "findFileRecord t name = Some (p, fr)" "\<not> new_array (2 ^ LENGTH('w) - 1)"
    using that u by (simp add: readData_owned_def)
  moreover have "fst (readData_owned t w new_array name) = Inl bad_alloc \<longleftrightarrow>
               \<not> new_array (2 ^ LENGTH('w) - 1)"
    if "findFileRecord t name = Some (p, fr)"
    using readData_owned_bad_alloc_iff[OF that ft, of w new_array] u by simp
  moreover have "readData_owned t w new_array name = readData_owned t w new_array' name"
    if "findFileRecord t name = Some (p, fr)"
      "new_array (2 ^ LENGTH('w) - 1) = new_array' (2 ^ LENGTH('w) - 1)"
    using that(2) u
    by (simp only: readData_owned_regular[OF that(1) ft])
  moreover have "readData_owned t w new_array name =
                 (let (bytesRead, w1) =
                        readDataFromRegularFile w (filePath fr) (ucast (- 1 :: 'w word))
                  in if unat bytesRead \<noteq> 2 ^ LENGTH('w) - 1 then (Inl std_exception, w1)
                     else (Inr (Some bytesRead), w1))"
    if "findFileRecord t name = Some (p, fr)" "new_array (2 ^ LENGTH('w) - 1)"
  proof -
    obtain n w1 where rd: "readDataFromRegularFile w (filePath fr) (ucast (- 1 :: 'w word))
                             = (n :: 'w word, w1)"
      by (cases "readDataFromRegularFile w (filePath fr) (ucast (- 1 :: 'w word)) :: 'w word \<times> world")
    have "readData_owned t w new_array name =
            (if n \<noteq> size' fr then (Inl std_exception, w1) else (Inr (Some n), w1))"
      using that(2) u rd sz by (simp add: readData_owned_regular[OF that(1) ft])
    then show ?thesis
      using rd ne[of n] by simp
  qed
  ultimately show ?thesis using u ft by blast
qed

text \<open>The witness of C10: \<open>HD/sprite.png\<close>, whose \<open>stat\<close> fails, on a 64-bit target.
  Where no array of \<open>2 ^ 32\<close> bytes or more can be allocated the call ends with
  \<open>bad_alloc\<close>; where every array can be allocated it goes on to open the file, which
  is not there, and throws because 0 bytes were read.\<close>

theorem stat_failure_size_witness:
  "records_at hd_indexed ''sprite.png''
     = records_at hd_configured ''sprite.png'' @ [sprite_generic, sprite_hd] \<and>
   hd_stat (filePath sprite_hd) = None \<and>
   map_option snd (findFileRecord hd_indexed ''sprite.png'') = Some sprite_hd \<and>
   unat (size' sprite_hd) = 18446744073709551615 \<and>
   unat (getSize hd_indexed ''sprite.png'') = 18446744073709551615 \<and>
   readData_owned hd_indexed demo_world (\<lambda>n. n < 4294967296) ''sprite.png''
     = (Inl bad_alloc, demo_world) \<and>
   fst (readData_owned hd_indexed demo_world (\<lambda>n. True) ''sprite.png'') \<noteq> Inl bad_alloc \<and>
   readData_owned hd_indexed demo_world (\<lambda>n. True) ''sprite.png''
     = (Inl std_exception, demo_world)"
proof -
  have a: "records_at hd_indexed ''sprite.png'' = [sprite_generic, sprite_hd]"
    by (simp add: hd_indexed_eq records_at_def)
  have b: "records_at hd_configured ''sprite.png'' = []"
    by (simp add: records_at_def hd_configured_def enableCategory_def addCategoryFolder_def
          ResourcesManager_def reset_def)
  have recs: "records_at (addRootFolder hd_stat (Some hd_tree) ''root'' hd_configured) ''sprite.png''
     = records_at hd_configured ''sprite.png'' @ [sprite_generic, sprite_hd]"
    unfolding hd_indexed_def[symmetric] using a b by simp
  have mem: "sprite_hd \<in> set [sprite_generic, sprite_hd]" by simp
  have st: "hd_stat (filePath sprite_hd) = None" by (simp add: hd_stat_def sprite_hd_def)
  have big: "\<not> (2 ^ LENGTH(64) - 1 :: nat) < 4294967296" by simp
  have rd: "readDataFromRegularFile demo_world (filePath sprite_hd) (ucast (- 1 :: 64 word))
              = (0 :: 64 word, demo_world)"
    by (simp add: readDataFromRegularFile_def fopen_def demo_world_def sprite_hd_def)
  let ?p = "\<lparr>vector_key = ''sprite.png'', buffer_address = 2, element_index = 1\<rparr>"
  note T = stat_failure_size[OF recs mem st, of hd_indexed "''sprite.png''" ?p
      "\<lambda>n. n < 4294967296" demo_world "\<lambda>n. n < 4294967296"]
  note U = stat_failure_size[OF recs mem st, of hd_indexed "''sprite.png''" ?p
      "\<lambda>n. True" demo_world "\<lambda>n. True"]
  from T hd_find big
  have "unat (size' sprite_hd) = 2 ^ LENGTH(64) - 1"
    and "unat (getSize hd_indexed ''sprite.png'') = 2 ^ LENGTH(64) - 1"
    and "readData_owned hd_indexed demo_world (\<lambda>n. n < 4294967296) ''sprite.png''
           = (Inl bad_alloc, demo_world)"
    by blast+
  moreover from U hd_find
  have "fst (readData_owned hd_indexed demo_world (\<lambda>n. True) ''sprite.png'') \<noteq> Inl bad_alloc"
    by blast
  moreover from U hd_find
  have "readData_owned hd_indexed demo_world (\<lambda>n. True) ''sprite.png'' =
          (let (bytesRead, w1) =
                 readDataFromRegularFile demo_world (filePath sprite_hd) (ucast (- 1 :: 64 word))
           in if unat bytesRead \<noteq> 2 ^ LENGTH(64) - 1 then (Inl std_exception, w1)
              else (Inr (Some bytesRead), w1))"
    by blast
  then have "readData_owned hd_indexed demo_world (\<lambda>n. True) ''sprite.png''
     = (Inl std_exception, demo_world)"
    unfolding rd by simp
  ultimately show ?thesis
    using recs st hd_find by (simp add: hd_indexed_def)
qed

subsection \<open>Keys\<close>

lemma tolower_of_char:
  "(of_char (tolower c) :: nat) =
     (if 65 \<le> (of_char c :: nat) \<and> (of_char c :: nat) \<le> 90 then of_char c + 32 else of_char c)"
  by (simp add: tolower_def less_eq_char_def)

lemma tolower_idem: "tolower (tolower c) = tolower c"
proof -
  have "(of_char (tolower (tolower c)) :: nat) = of_char (tolower c)"
    by (simp add: tolower_of_char)
  then show ?thesis by (simp only: of_char_eq_iff)
qed

lemma tolower_slash: "tolower c = CHR ''/'' \<longleftrightarrow> c = CHR ''/''"
proof -
  have "(of_char (tolower c) :: nat) = 47 \<longleftrightarrow> (of_char c :: nat) = 47"
    by (simp add: tolower_of_char)
  moreover have "(of_char (CHR ''/'') :: nat) = 47" by simp
  ultimately show ?thesis by (metis of_char_eq_iff)
qed

lemma tolower_backslash: "tolower c = backslash \<longleftrightarrow> c = backslash"
proof -
  have "(of_char (tolower c) :: nat) = 92 \<longleftrightarrow> (of_char c :: nat) = 92"
    by (simp add: tolower_of_char)
  moreover have "(of_char backslash :: nat) = 92" by (simp add: backslash_def)
  ultimately show ?thesis by (metis of_char_eq_iff)
qed

lemma makeKey_key_norm:
  "makeKey s p = key_norm (map tolower (if searchByRelativePaths s then p else basename p))"
  by (simp add: makeKey_def key_norm_def Let_def)

lemma find_last_of_None: "find_last_of s cs = None \<longleftrightarrow> set s \<inter> set cs = {}"
  by (induction s) (auto split: option.splits)

lemma basename_Cons:
  "basename (c # s) =
     (if \<exists>x \<in> set s. is_sep x then basename s else if is_sep c then s else c # s)"
proof (cases "find_last_of s [CHR ''/'', backslash]")
  case None
  then have "\<not> (\<exists>x \<in> set s. is_sep x)"
    using find_last_of_None[of s "[CHR ''/'', backslash]"] by (auto simp: is_sep_def)
  then show ?thesis using None by (auto simp: basename_def is_sep_def)
next
  case (Some pos)
  then have "\<exists>x \<in> set s. is_sep x"
    using find_last_of_None[of s "[CHR ''/'', backslash]"] by (auto simp: is_sep_def)
  then show ?thesis using Some by (simp add: basename_def)
qed

lemma basename_takeWhile: "basename p = rev (takeWhile (\<lambda>c. \<not> is_sep c) (rev p))"
proof (induction p)
  case Nil
  then show ?case by (simp add: basename_def)
next
  case (Cons c s)
  show ?case
  proof (cases "\<exists>x \<in> set s. is_sep x")
    case True
    then have "takeWhile (\<lambda>c. \<not> is_sep c) (rev s @ [c]) = takeWhile (\<lambda>c. \<not> is_sep c) (rev s)"
      by (intro takeWhile_append1[where x="SOME x. x \<in> set s \<and> is_sep x"])
         (auto intro: someI2_ex)
    then show ?thesis using True Cons by (simp add: basename_Cons)
  next
    case False
    then have "takeWhile (\<lambda>c. \<not> is_sep c) (rev s @ [c])
                 = rev s @ takeWhile (\<lambda>c. \<not> is_sep c) [c]"
      by (intro takeWhile_append2) auto
    then show ?thesis using False by (simp add: basename_Cons)
  qed
qed

lemma basename_no_sep: "x \<in> set (basename p) \<Longrightarrow> \<not> is_sep x"
  unfolding basename_takeWhile using set_takeWhileD[of x "\<lambda>c. \<not> is_sep c" "rev p"] by simp

lemma basename_id:
  assumes "\<forall>x \<in> set p. \<not> is_sep x"
  shows "basename p = p"
proof -
  have "takeWhile (\<lambda>c. \<not> is_sep c) (rev p) = rev p"
    using assms by simp
  then have "rev (takeWhile (\<lambda>c. \<not> is_sep c) (rev p)) = rev (rev p)"
    by (rule arg_cong)
  then show ?thesis by (simp only: basename_takeWhile rev_rev_ident)
qed

lemma is_sep_tolower: "is_sep (tolower c) = is_sep c"
  by (simp add: is_sep_def tolower_slash tolower_backslash)

lemma basename_tolower: "map tolower (basename p) = basename (map tolower p)"
proof -
  have "(\<lambda>c. \<not> is_sep c) \<circ> tolower = (\<lambda>c. \<not> is_sep c)"
    by (auto simp: is_sep_tolower)
  then have "takeWhile (\<lambda>c. \<not> is_sep c) (map tolower (rev p))
          = map tolower (takeWhile (\<lambda>c. \<not> is_sep c) (rev p))"
    by (simp add: takeWhile_map)
  then show ?thesis
    by (simp add: basename_takeWhile rev_map)
qed

lemma replaceAll_no_backslash:
  "backslash \<notin> set x \<Longrightarrow> replaceAll x [backslash, backslash] r = x"
  by (induction x) auto

lemma set_replaceAll: "set (replaceAll x srch r) \<subseteq> set x \<union> set r"
proof (induction x srch r rule: replaceAll.induct)
  case (1 srch r)
  then show ?case by simp
next
  case (2 c s srch r)
  show ?case
  proof (cases "srch \<noteq> [] \<and> prefix srch (c # s)")
    case True
    have "set (drop (length srch) (c # s)) \<subseteq> set (c # s)" by (rule set_drop_subset)
    with 2(1)[OF True] True show ?thesis by auto
  next
    case False
    with 2(2)[OF False] show ?thesis by auto
  qed
qed

lemma key_norm_no_backslash: "backslash \<notin> set (key_norm x)"
  by (auto simp: key_norm_def backslash_def)

lemma key_norm_id: "backslash \<notin> set x \<Longrightarrow> key_norm x = x"
  by (auto simp: key_norm_def replaceAll_no_backslash intro!: map_idI)

lemma set_key_norm: "set (key_norm x) \<subseteq> set x \<union> {CHR ''/''}"
  using set_replaceAll[of x "[backslash, backslash]" "''/''"] by (auto simp: key_norm_def)

lemma tolower_key_norm: "map tolower (key_norm (map tolower y)) = key_norm (map tolower y)"
proof (rule map_idI)
  fix c assume "c \<in> set (key_norm (map tolower y))"
  then have "c \<in> set (map tolower y) \<or> c = CHR ''/''" using set_key_norm by fastforce
  then show "tolower c = c" by (auto simp: tolower_idem tolower_slash)
qed

lemma makeKey_idem: "makeKey s (makeKey s q) = makeKey s q"
proof (cases "searchByRelativePaths s")
  case True
  then show ?thesis
    by (simp add: makeKey_key_norm tolower_key_norm key_norm_id key_norm_no_backslash)
next
  case False
  let ?y = "map tolower (basename q)"
  have nosep: "\<forall>x \<in> set ?y. \<not> is_sep x"
    using basename_no_sep[of _ q] by (auto simp: is_sep_tolower)
  then have nb: "backslash \<notin> set ?y" by (auto simp: is_sep_def)
  have k: "makeKey s q = ?y" using False nb by (simp add: makeKey_key_norm key_norm_id)
  have "basename ?y = ?y" using nosep by (rule basename_id)
  moreover have "map tolower ?y = ?y" by (simp add: tolower_idem)
  ultimately have "makeKey s ?y = ?y"
    using False nb by (simp add: makeKey_key_norm key_norm_id)
  then show ?thesis by (simp add: k)
qed

lemma makeKey_case_insensitive:
  assumes "map tolower q = map tolower p"
  shows "makeKey s q = makeKey s p"
  using assms by (simp add: makeKey_key_norm basename_tolower)

lemma takeWhile_stop:
  assumes "\<not> P y"
  shows "takeWhile P (xs @ y # ys) = takeWhile P xs"
proof (cases "\<forall>x \<in> set xs. P x")
  case True
  then have "takeWhile P (xs @ y # ys) = xs @ takeWhile P (y # ys)"
    by (intro takeWhile_append2) simp
  moreover have "takeWhile P (y # ys) = []" using assms by simp
  moreover have "takeWhile P xs = xs" using True by simp
  ultimately show ?thesis by (simp only: append_Nil2)
next
  case False
  then obtain x where "x \<in> set xs" "\<not> P x" by blast
  then show ?thesis by (rule takeWhile_append1)
qed

lemma basename_after_slash: "basename (p @ CHR ''/'' # f) = basename f"
proof -
  have "takeWhile (\<lambda>c. \<not> is_sep c) (rev f @ CHR ''/'' # rev p)
          = takeWhile (\<lambda>c. \<not> is_sep c) (rev f)"
    by (rule takeWhile_stop) (simp add: is_sep_def)
  then show ?thesis by (simp add: basename_takeWhile)
qed

lemma combine_last:
  assumes "f \<noteq> []"
  shows "combine (xs @ [f]) = slashed xs @ f"
proof -
  have "slashed (xs @ [f]) = slashed xs @ f @ ''/''"
    using assms by (simp add: slashed_append slashed_Cons) (simp add: slashed_def)
  then have "butlast (slashed (xs @ [f])) = slashed xs @ f"
    by (simp add: butlast_append)
  then show ?thesis by (simp only: combine_slashed)
qed

lemma basename_combine_last:
  assumes "f \<noteq> []"
  shows "basename (combine (xs @ [f])) = basename f"
proof (cases "slashed xs = []")
  case True
  then show ?thesis using combine_last[OF assms, of xs] by simp
next
  case False
  then obtain p where "slashed xs = p @ ''/''" using slashed_last by blast
  then have "combine (xs @ [f]) = p @ CHR ''/'' # f"
    using combine_last[OF assms, of xs] by simp
  then show ?thesis by (simp add: basename_after_slash)
qed

lemma makeKey_last_component:
  assumes "\<not> searchByRelativePaths s" and "f \<noteq> []"
  shows "makeKey s (combine (xs @ [f])) = makeKey s f"
  using assms by (simp add: makeKey_key_norm basename_combine_last)


text \<open>
  A key is its own key, and the key of a name does not change when the name is
  lower-cased first.
\<close>

theorem makeKey_stable:
  "makeKey s (makeKey s q) = makeKey s q \<and> makeKey s (map tolower q) = makeKey s q"
proof -
  have "map tolower (map tolower q) = map tolower q" by (simp add: tolower_idem)
  then have "makeKey s (map tolower q) = makeKey s q" by (rule makeKey_case_insensitive)
  then show ?thesis by (simp add: makeKey_idem)
qed

subsection \<open>The open-stream table\<close>

lemma addRootFolder_openStreams:
  "openStreams (addRootFolder stat dp root s) = openStreams s"
  by (subst addRootFolder_frame) simp

lemma push_back_record_openStreams:
  "openStreams (push_back_record key fr s) = openStreams s"
  by (subst push_back_record_frame) simp

lemma addArchive_loop_openStreams:
  "openStreams (fst (snd (addArchive_loop archivePath rootFolder entry u s))) = openStreams s"
proof (induction archivePath rootFolder entry u s rule: addArchive_loop.induct)
  case (1 archivePath rootFolder entry u s)
  show ?case
  proof (cases "unzGetFilePos u")
    case (UNZ_OK pos)
    show ?thesis
    proof (cases "filenameToRecordMap s (fst entry) \<noteq> None")
      case True
      then show ?thesis using UNZ_OK by (subst addArchive_loop.simps) simp
    next
      case False
      let ?s1 = "case archiveRecord s archivePath rootFolder (fst entry) (snd entry) pos of
                        None \<Rightarrow> s
                      | Some (key, fr) \<Rightarrow> push_back_record key fr s"
      have s1: "openStreams ?s1 = openStreams s"
        by (simp add: push_back_record_openStreams split: option.splits)
      obtain r u1 where nxt: "unzGoToNextFile2 u = (r, u1)" by (cases "unzGoToNextFile2 u")
      show ?thesis
      proof (cases r)
        case (UNZ_OK entry')
        have "openStreams (fst (snd (addArchive_loop archivePath rootFolder entry' u1 ?s1)))
                = openStreams ?s1"
          using 1[OF \<open>unzGetFilePos u = UNZ_OK pos\<close> False refl _ UNZ_OK] nxt by simp
        then show ?thesis
          using \<open>unzGetFilePos u = UNZ_OK pos\<close> False nxt UNZ_OK s1
          by (subst addArchive_loop.simps) (simp add: Let_def)
      next
        case UNZ_END_OF_LIST_OF_FILE
        then show ?thesis
          using \<open>unzGetFilePos u = UNZ_OK pos\<close> False nxt s1
          by (subst addArchive_loop.simps) (simp add: Let_def)
      next
        case UNZ_ERROR
        then show ?thesis
          using \<open>unzGetFilePos u = UNZ_OK pos\<close> False nxt s1
          by (subst addArchive_loop.simps) (simp add: Let_def)
      qed
    qed
  next
    case UNZ_END_OF_LIST_OF_FILE
    then show ?thesis by (subst addArchive_loop.simps) simp
  next
    case UNZ_ERROR
    then show ?thesis by (subst addArchive_loop.simps) simp
  qed
qed

lemma addArchive_openStreams:
  "openStreams (fst (snd (addArchive archivePath rootFolder s w))) = openStreams s"
proof -
  have "openStreams (fst (snd (case addArchive_loop archivePath rootFolder entry u s of
                     (Inr _, s', u') \<Rightarrow> (Inr (), s', f u')
                   | (Inl e, s', u') \<Rightarrow> (Inl e, s', g u')))) = openStreams s"
    for entry u and f g :: "unz_s \<Rightarrow> world"
    using addArchive_loop_openStreams[of archivePath rootFolder entry u s]
    by (auto split: prod.splits sum.splits)
  then show ?thesis
    unfolding addArchive_def Let_def
    by (auto split: prod.splits option.splits unz_result.splits simp del: addArchive_loop.simps)
qed

lemma insertStream_cases:
  "insertStream sr s w = (res, s', w') \<Longrightarrow>
     (openStreams s (randomValue sr) \<noteq> None \<and> res = Inl std_exception \<and> s' = s \<and> w' = w) \<or>
     (openStreams s (randomValue sr) = None \<and> res = Inr (Some (randomValue sr)) \<and>
      s' = s\<lparr>openStreams := (openStreams s)(randomValue sr \<mapsto> sr)\<rparr> \<and> w' = w)"
  by (auto simp: insertStream_def split: if_splits)

text \<open>Every way out of \<open>getStream\<close>: the table is unchanged and no handle is
  returned, or one record with the random value as its handle, and with the pointer
  that \<open>findFileRecord\<close> returned, was inserted at a free place.\<close>

lemma getStream_cases:
  assumes "getStream s w rnd name = (res, s', w')"
  shows "(s' = s \<and> (res = Inl std_exception \<or> res = Inr None)) \<or>
         (openStreams s rnd = None \<and> res = Inr (Some rnd) \<and>
          (\<exists>sr fr. findFileRecord s name = Some (fileRecord sr, fr) \<and> randomValue sr = rnd \<and>
                   s' = s\<lparr>openStreams := (openStreams s)(rnd \<mapsto> sr)\<rparr>))"
proof (cases "findFileRecord s name")
  case None
  then show ?thesis using assms by (simp add: getStream_def)
next
  case (Some ref)
  obtain p fr where ref: "ref = (p, fr)" by (cases ref)
  let ?sr = "\<lparr>fileRecord = p, randomValue = rnd, file' = None, zipFile = None\<rparr>"
  have ins: "insertStream sr s w1 = (res, s', w') \<Longrightarrow> randomValue sr = rnd \<Longrightarrow>
             fileRecord sr = p \<Longrightarrow> ?thesis"
    for sr :: StreamRecord and w1
    using insertStream_cases[of sr s w1 res s' w'] Some ref by auto
  show ?thesis
  proof (cases "fileType fr")
    case RegularFile
    show ?thesis
    proof (cases "fopen w (filePath fr)")
      case (Pair f w1)
      show ?thesis
      proof (cases f)
        case None
        then show ?thesis using assms Some ref RegularFile Pair by (simp add: getStream_def)
      next
        case (Some fh)
        then have "insertStream (?sr\<lparr>file' := Some fh\<rparr>) s w1 = (res, s', w')"
          using assms \<open>findFileRecord s name = Some ref\<close> ref RegularFile Pair
          by (simp add: getStream_def)
        then show ?thesis by (rule ins) simp_all
      qed
    qed
  next
    case CompressedFile
    have "insertStream (?sr\<lparr>zipFile := Some z\<rparr>) s w1 = (res, s', w') \<Longrightarrow> ?thesis" for z w1
      using ins[of "?sr\<lparr>zipFile := Some z\<rparr>" w1] by simp
    then show ?thesis
      using assms Some ref CompressedFile
      by (auto simp: getStream_def Let_def split: prod.splits option.splits unz_result.splits)
  next
    case StoredFile
    have "insertStream (?sr\<lparr>zipFile := Some z\<rparr>) s w1 = (res, s', w') \<Longrightarrow> ?thesis" for z w1
      using ins[of "?sr\<lparr>zipFile := Some z\<rparr>" w1] by simp
    then show ?thesis
      using assms Some ref StoredFile
      by (auto simp: getStream_def Let_def split: prod.splits option.splits unz_result.splits)
  qed
qed

text \<open>\<open>readData\<close> and \<open>closeFile\<close> on a handle have no defined behaviour exactly
  when the handle is in the table and the record pointer of its stream dangles.\<close>

lemma readData_handle_undefined_iff:
  "readData_handle s w h n = Undefined_behaviour \<longleftrightarrow>
     (\<exists>sr. openStreams s h = Some sr \<and> deref s (fileRecord sr) = None)"
  by (auto simp: readData_handle_def getStreamRecord_def split: option.splits)

lemma closeFile_undefined_iff:
  "closeFile s w h = Undefined_behaviour \<longleftrightarrow>
     (\<exists>sr. openStreams s h = Some sr \<and> deref s (fileRecord sr) = None)"
  by (auto simp: closeFile_def getStreamRecord_def split: option.splits prod.splits)

lemma closeFile_state:
  assumes "closeFile s w handle = Returns (r, s', w')"
  shows "s' = (case openStreams s handle of
                 None \<Rightarrow> s
               | Some sr \<Rightarrow> s\<lparr>openStreams := (openStreams s)(randomValue sr := None)\<rparr>)"
  using assms
  by (auto simp: closeFile_def getStreamRecord_def split: option.splits prod.splits)

lemma handles_consistent_getStream:
  assumes "handles_consistent s"
  shows "handles_consistent (fst (snd (getStream s w rnd name)))"
proof -
  obtain res s' w' where g: "getStream s w rnd name = (res, s', w')"
    by (cases "getStream s w rnd name") auto
  from getStream_cases[OF g] assms show ?thesis
    unfolding g by (auto simp: handles_consistent_def split: if_splits)
qed

lemma handles_consistent_closeFile:
  assumes "handles_consistent s" and "closeFile s w handle = Returns (r, s', w')"
  shows "handles_consistent s'"
  using assms(1) closeFile_state[OF assms(2)]
  by (auto simp: handles_consistent_def split: option.splits)

lemma reachable_handles_consistent:
  "reachable s \<Longrightarrow> handles_consistent s"
proof (induction rule: reachable.induct)
  case r_new
  then show ?case by (simp add: handles_consistent_def ResourcesManager_def reset_def)
next
  case (r_addRootFolder s stat dp rootFolder)
  then show ?case by (simp add: handles_consistent_def addRootFolder_openStreams)
next
  case (r_addArchive s archivePath rootFolder w)
  then show ?case by (simp add: handles_consistent_def addArchive_openStreams)
next
  case (r_getStream s w rnd name)
  from r_getStream.IH show ?case by (rule handles_consistent_getStream)
next
  case (r_closeFile s w handle r s' w')
  from r_closeFile.IH r_closeFile.hyps(2) show ?case by (rule handles_consistent_closeFile)
qed (simp_all add: handles_consistent_def reset_def addLanguageFolder_def setCurrentLanguage_def
       addCategoryFolder_def enableCategory_def disableCategory_def setSearchByRelativePaths_def
       addSearchRoot_def Let_def)

lemma reachable_demo_two_streams: "reachable demo_two_streams"
  unfolding demo_two_streams_def using reachable_demo_streaming by (rule r_getStream)

lemma readData_handle_absent:
  "openStreams s h = None \<Longrightarrow> readData_handle s w h n = Returns (0, w)"
  by (simp add: readData_handle_def getStreamRecord_def)

lemma closeFile_absent:
  "openStreams s h = None \<Longrightarrow> closeFile s w h = Returns (0, s, w)"
  by (simp add: closeFile_def getStreamRecord_def)

lemma closeFile_removes:
  assumes "handles_consistent s" and "closeFile s w h = Returns (r, s', w')"
  shows "openStreams s' h = None"
  using assms(1) closeFile_state[OF assms(2)]
  by (auto simp: handles_consistent_def split: option.splits)

text \<open>A stream that \<open>getStream\<close> has just opened has a good record pointer, and as
  long as the record store stays as it is, every read on it and its \<open>closeFile\<close>
  return.\<close>

lemma deref_openStreams: "deref (s\<lparr>openStreams := m\<rparr>) p = deref s p"
  by (simp add: deref_def)

lemma getStream_stream_valid:
  assumes "getStream s w rnd name = (Inr (Some h), s', w')"
  shows "stream_valid s' h"
proof -
  from getStream_cases[OF assms] obtain sr fr where
    f: "findFileRecord s name = Some (fileRecord sr, fr)" and h: "h = rnd"
    and s': "s' = s\<lparr>openStreams := (openStreams s)(rnd \<mapsto> sr)\<rparr>"
    by auto
  from findFileRecord_Some[OF f] have "deref s (fileRecord sr) = Some fr" by simp
  then show ?thesis
    unfolding s' h by (simp add: stream_valid_def deref_openStreams)
qed

lemma read_many_returns:
  assumes "stream_valid s h"
  shows "\<exists>w'. read_many s h sizes w = Returns w'"
proof (induction sizes arbitrary: w)
  case Nil
  then show ?case by simp
next
  case (Cons sz sizes)
  have "readData_handle s w h sz \<noteq> Undefined_behaviour"
    using assms by (auto simp: readData_handle_undefined_iff stream_valid_def)
  then obtain n w1 where "readData_handle s w h sz = Returns (n, w1)"
    by (cases "readData_handle s w h sz") auto
  then show ?case using Cons[of w1] by simp
qed

lemma closeFile_returns:
  assumes "stream_valid s h"
  shows "\<exists>r s' w'. closeFile s w h = Returns (r, s', w')"
proof -
  have "closeFile s w h \<noteq> Undefined_behaviour"
    using assms by (auto simp: closeFile_undefined_iff stream_valid_def)
  then show ?thesis by (cases "closeFile s w h") auto
qed

subsection \<open>The search roots of reachable states\<close>





subsection \<open>What a failed addArchive leaves behind\<close>




subsection \<open>Looking up what the walk stored\<close>


lemma addRootFolder_has_records:
  fixes s :: "'w::len ResourcesManagerImpl"
  assumes "leaf \<in> set (visible_opt dp)"
  shows "\<exists>fr \<in> set (records_at (addRootFolder stat dp root s) (leaf_key s [] leaf)).
           is_record_of stat root [] leaf fr"
proof -
  let ?s0 = "s\<lparr>rootFoldersList := rootFoldersList s @ [root]\<rparr>"
  have lk: "leaf_key ?s0 [] leaf = leaf_key s [] leaf"
    by (simp add: leaf_key_def makeKey_def)
  from walk_ok_all(1)[of stat root "[]" "[]" dp ?s0 "[]" "[]"] assms
  have "\<exists>fr \<in> set (records_at (addRootFolder stat dp root s) (leaf_key ?s0 [] leaf)).
           is_record_of stat root [] leaf fr"
    unfolding walk_ok_def addRootFolder_def by blast
  then show ?thesis by (simp only: lk)
qed

lemma leaf_key_top:
  "leaf_key s [] (dirs, f)
     = makeKey s (combine (key_folders (relativeFolderToCategoryMap s) dirs @ [f]))"
  by (simp add: leaf_key_def combine_Nil_Cons)

lemma is_record_of_top:
  "is_record_of stat root [] (dirs, f) fr \<Longrightarrow>
     filename fr = f \<and> fileType fr = RegularFile \<and> relativePath fr = combine (dirs @ [f])"
  by (simp add: is_record_of_def combine_Nil_Cons)

lemma res_indexed_store:
  "filenameToRecordMap res_indexed =
     [''a.png'' \<mapsto>
        \<lparr>buffer = 1,
         elems = [\<lparr>filename = ''a.png'', fileType = RegularFile, size' = 1, languageId = [],
                   category = [], filePath = ''root/res/a.png'', relativePath = ''res/a.png'',
                   zipFilePath = [], zipFilePos = 0\<rparr>],
         capacity = 1\<rparr>]"
  by (simp add: res_indexed_def res_tree_def new_manager_def addRootFolder_def
        ResourcesManager_def reset_def map_find_def path_eval push_back_record_def
        vector_push_back_def getFileSize_def)

subsection \<open>C3: registered files exist\<close>









subsection \<open>C6: category folders and the key\<close>

text \<open>
  C6, as stated: a folder that matches no category folder contributes its name to the
  lookup key of the records below it. This fails in the default configuration, where
  the key is made of the basename alone: \<open>res\<close> is no category folder, and the only
  key in the record store after indexing \<open>res/a.png\<close> is \<open>a.png\<close>.
\<close>

theorem category_folders_counterexample:
  "\<not> searchByRelativePaths res_indexed \<and>
   map_find (relativeFolderToCategoryMap res_indexed) ''res'' = None \<and>
   visible_files res_tree = [([''res''], ''a.png'')] \<and>
   map relativePath (records_at res_indexed ''a.png'') = [''res/a.png''] \<and>
   dom (filenameToRecordMap res_indexed) = {''a.png''}"
proof -
  have "\<not> searchByRelativePaths res_indexed"
    and "map_find (relativeFolderToCategoryMap res_indexed) ''res'' = None"
    and "visible_files res_tree = [([''res''], ''a.png'')]"
    and "map relativePath (records_at res_indexed ''a.png'') = [''res/a.png'']"
    by code_simp+
  moreover have "dom (filenameToRecordMap res_indexed) = {''a.png''}"
    by (simp add: res_indexed_store)
  ultimately show ?thesis by simp
qed

text \<open>
  C6, amended: every record that \<open>addRootFolder\<close> adds belongs to a visited file and
  is stored under the key made from the file's key path, and every visited file has
  such a record. The key path joins the names of the folders on the way to the file,
  without those registered as category folders (a category folder's name is dropped,
  every other folder's name stays), and the file's name; so the key is the same with
  and without a category folder on the way. With \<open>searchByRelativePaths\<close> set the key
  is the whole key path, lower-cased and with slashes for backslashes; otherwise it is
  the key of the file's name alone and no folder name is part of it.
\<close>

theorem category_folders_in_keys:
  fixes s :: "'w::len ResourcesManagerImpl"
  assumes new: "records_at (addRootFolder stat dp root s) k = records_at s k @ new"
  shows "(\<forall>fr \<in> set new. \<exists>leaf \<in> set (visible_opt dp).
            filename fr = snd leaf \<and> relativePath fr = combine (fst leaf @ [snd leaf]) \<and>
            k = makeKey s (combine (key_folders (relativeFolderToCategoryMap s) (fst leaf) @ [snd leaf]))) \<and>
         ((dirs, f) \<in> set (visible_opt dp) \<longrightarrow>
            (\<exists>fr \<in> set (records_at (addRootFolder stat dp root s)
                  (makeKey s (combine (key_folders (relativeFolderToCategoryMap s) dirs @ [f])))).
               filename fr = f \<and> relativePath fr = combine (dirs @ [f]))) \<and>
         (map_find (relativeFolderToCategoryMap s) d \<noteq> None \<longrightarrow>
            key_folders (relativeFolderToCategoryMap s) (ds1 @ d # ds2)
              = key_folders (relativeFolderToCategoryMap s) (ds1 @ ds2)) \<and>
         (map_find (relativeFolderToCategoryMap s) d = None \<longrightarrow>
            key_folders (relativeFolderToCategoryMap s) (ds1 @ d # ds2)
              = key_folders (relativeFolderToCategoryMap s) ds1 @
                d # key_folders (relativeFolderToCategoryMap s) ds2) \<and>
         (searchByRelativePaths s \<longrightarrow> makeKey s p = key_norm (map tolower p)) \<and>
         (\<not> searchByRelativePaths s \<longrightarrow> f \<noteq> [] \<longrightarrow> makeKey s (combine (xs @ [f])) = makeKey s f)"
proof (intro conjI impI ballI)
  fix fr assume "fr \<in> set new"
  from addRootFolder_new_records[OF new this] obtain leaf
    where l: "leaf \<in> set (visible_opt dp)" "is_record_of stat root [] leaf fr"
      "k = leaf_key s [] leaf"
    by blast
  obtain dirs f where lf: "leaf = (dirs, f)" by (cases leaf)
  from l(2) have "filename fr = snd leaf \<and> relativePath fr = combine (fst leaf @ [snd leaf])"
    unfolding lf using is_record_of_top by fastforce
  moreover have "k = makeKey s (combine (key_folders (relativeFolderToCategoryMap s) (fst leaf) @ [snd leaf]))"
    using l(3) unfolding lf by (simp add: leaf_key_top)
  ultimately show "\<exists>leaf \<in> set (visible_opt dp).
            filename fr = snd leaf \<and> relativePath fr = combine (fst leaf @ [snd leaf]) \<and>
            k = makeKey s (combine (key_folders (relativeFolderToCategoryMap s) (fst leaf) @ [snd leaf]))"
    using l(1) by blast
next
  assume "(dirs, f) \<in> set (visible_opt dp)"
  from addRootFolder_has_records[OF this, of stat root s]
  show "\<exists>fr \<in> set (records_at (addRootFolder stat dp root s)
                  (makeKey s (combine (key_folders (relativeFolderToCategoryMap s) dirs @ [f])))).
               filename fr = f \<and> relativePath fr = combine (dirs @ [f])"
    unfolding leaf_key_top using is_record_of_top by blast
next
  assume "map_find (relativeFolderToCategoryMap s) d \<noteq> None"
  then show "key_folders (relativeFolderToCategoryMap s) (ds1 @ d # ds2)
              = key_folders (relativeFolderToCategoryMap s) (ds1 @ ds2)"
    by (simp add: key_folders_def)
next
  assume "map_find (relativeFolderToCategoryMap s) d = None"
  then show "key_folders (relativeFolderToCategoryMap s) (ds1 @ d # ds2)
              = key_folders (relativeFolderToCategoryMap s) ds1 @
                d # key_folders (relativeFolderToCategoryMap s) ds2"
    by (simp add: key_folders_def)
next
  assume "searchByRelativePaths s"
  then show "makeKey s p = key_norm (map tolower p)" by (simp add: makeKey_key_norm)
next
  assume "\<not> searchByRelativePaths s" and "f \<noteq> []"
  then show "makeKey s (combine (xs @ [f])) = makeKey s f" by (rule makeKey_last_component)
qed

text \<open>The witness of C6: \<open>HD/sprite.png\<close> below the category folder \<open>HD\<close>, and the
  folder names \<open>res\<close> and \<open>x\<close> that are no category folders.\<close>

theorem category_folders_in_keys_witness:
  "records_at hd_indexed ''sprite.png''
     = records_at hd_configured ''sprite.png'' @ [sprite_generic, sprite_hd] \<and>
   ([''HD''], ''sprite.png'') \<in> set (visible_opt (Some hd_tree)) \<and>
   map_find (relativeFolderToCategoryMap hd_configured) ''HD'' \<noteq> None \<and>
   map_find (relativeFolderToCategoryMap hd_configured) ''res'' = None \<and>
   key_folders (relativeFolderToCategoryMap hd_configured) [''res'', ''HD'', ''x'']
     = key_folders (relativeFolderToCategoryMap hd_configured) [''res'', ''x''] \<and>
   key_folders (relativeFolderToCategoryMap hd_configured) [''res'', ''x''] = [''res'', ''x''] \<and>
   (\<exists>leaf \<in> set (visible_opt (Some hd_tree)).
      filename sprite_hd = snd leaf \<and>
      relativePath sprite_hd = combine (fst leaf @ [snd leaf]) \<and>
      ''sprite.png'' = makeKey hd_configured
         (combine (key_folders (relativeFolderToCategoryMap hd_configured) (fst leaf) @ [snd leaf]))) \<and>
   (\<exists>fr \<in> set (records_at hd_indexed ''sprite.png'').
      filename fr = ''sprite.png'' \<and> relativePath fr = ''HD/sprite.png'') \<and>
   \<not> searchByRelativePaths hd_configured \<and>
   makeKey hd_configured (combine ([''res'', ''x''] @ [''Sprite.png''])) = makeKey hd_configured ''Sprite.png'' \<and>
   searchByRelativePaths (setSearchByRelativePaths True hd_configured) \<and>
   makeKey (setSearchByRelativePaths True hd_configured) ''Res/X/Sprite.png''
     = key_norm (map tolower ''Res/X/Sprite.png'')"
proof -
  have a: "records_at hd_indexed ''sprite.png'' = [sprite_generic, sprite_hd]"
    by (simp add: hd_indexed_eq records_at_def)
  have b: "records_at hd_configured ''sprite.png'' = []"
    by (simp add: records_at_def hd_configured_def enableCategory_def addCategoryFolder_def
          ResourcesManager_def reset_def)
  have recs: "records_at (addRootFolder hd_stat (Some hd_tree) ''root'' hd_configured) ''sprite.png''
     = records_at hd_configured ''sprite.png'' @ [sprite_generic, sprite_hd]"
    unfolding hd_indexed_def[symmetric] using a b by simp
  have recs2: "records_at (addRootFolder hd_stat (Some hd_tree) ''root''
                  (setSearchByRelativePaths True hd_configured)) ''sprite.png''
     = records_at (setSearchByRelativePaths True hd_configured) ''sprite.png''
       @ records_at hd_relative_indexed ''sprite.png''"
    unfolding hd_relative_indexed_def[symmetric]
    using b by (simp add: records_at_def setSearchByRelativePaths_def)
  have leaf: "([''HD''], ''sprite.png'') \<in> set (visible_opt (Some hd_tree))" by code_simp
  have hd: "map_find (relativeFolderToCategoryMap hd_configured) ''HD'' \<noteq> None"
    and res: "map_find (relativeFolderToCategoryMap hd_configured) ''res'' = None"
    and flag: "\<not> searchByRelativePaths hd_configured"
    and flag2: "searchByRelativePaths (setSearchByRelativePaths True hd_configured)"
    by code_simp+
  have kp: "makeKey hd_configured
              (combine (key_folders (relativeFolderToCategoryMap hd_configured) [''HD'']
                        @ [''sprite.png''])) = ''sprite.png''"
    and cp: "combine ([''HD''] @ [''sprite.png'']) = ''HD/sprite.png''"
    by code_simp+
  have mem: "sprite_hd \<in> set [sprite_generic, sprite_hd]" by simp
  have ne: "''Sprite.png'' \<noteq> []" by simp
  note A = category_folders_in_keys[OF recs, of "[''HD'']" "''sprite.png''" "''HD''"
      "[''res'']" "[''x'']" "''Res/X/Sprite.png''" "[''res'', ''x'']"]
  note A' = category_folders_in_keys[OF recs, of "[''HD'']" "''Sprite.png''" "''res''"
      "[]" "[''x'']" "''Res/X/Sprite.png''" "[''res'', ''x'']"]
  note B = category_folders_in_keys[OF recs2, of "[''HD'']" "''sprite.png''" "''HD''"
      "[''res'']" "[''x'']" "''Res/X/Sprite.png''" "[''res'', ''x'']"]
  from A mem have c1: "\<exists>leaf \<in> set (visible_opt (Some hd_tree)).
      filename sprite_hd = snd leaf \<and>
      relativePath sprite_hd = combine (fst leaf @ [snd leaf]) \<and>
      ''sprite.png'' = makeKey hd_configured
         (combine (key_folders (relativeFolderToCategoryMap hd_configured) (fst leaf) @ [snd leaf]))"
    by blast
  from A leaf have "\<exists>fr \<in> set (records_at (addRootFolder hd_stat (Some hd_tree) ''root'' hd_configured)
                  (makeKey hd_configured
                     (combine (key_folders (relativeFolderToCategoryMap hd_configured) [''HD'']
                               @ [''sprite.png''])))).
               filename fr = ''sprite.png'' \<and> relativePath fr = combine ([''HD''] @ [''sprite.png''])"
    by blast
  then have c2: "\<exists>fr \<in> set (records_at hd_indexed ''sprite.png'').
      filename fr = ''sprite.png'' \<and> relativePath fr = ''HD/sprite.png''"
    unfolding kp cp hd_indexed_def[symmetric] .
  from A hd have c3: "key_folders (relativeFolderToCategoryMap hd_configured) ([''res''] @ ''HD'' # [''x''])
     = key_folders (relativeFolderToCategoryMap hd_configured) ([''res''] @ [''x''])"
    by blast
  from A' res have "key_folders (relativeFolderToCategoryMap hd_configured) ([] @ ''res'' # [''x''])
     = key_folders (relativeFolderToCategoryMap hd_configured) [] @
       ''res'' # key_folders (relativeFolderToCategoryMap hd_configured) [''x'']"
    by blast
  moreover have "key_folders (relativeFolderToCategoryMap hd_configured) [''x''] = [''x'']"
    and "key_folders (relativeFolderToCategoryMap hd_configured) [] = []"
    by code_simp+
  ultimately have c4: "key_folders (relativeFolderToCategoryMap hd_configured) [''res'', ''x'']
     = [''res'', ''x'']"
    by simp
  from A' flag ne have c5: "makeKey hd_configured (combine ([''res'', ''x''] @ [''Sprite.png'']))
      = makeKey hd_configured ''Sprite.png''"
    by blast
  from B flag2 have c6: "makeKey (setSearchByRelativePaths True hd_configured) ''Res/X/Sprite.png''
     = key_norm (map tolower ''Res/X/Sprite.png'')"
    by blast
  show ?thesis
    using a b leaf hd res c1 c2 c3 c4 c5 c6 flag flag2 by simp
qed

subsection \<open>C7: handles of open streams\<close>

text \<open>What \<open>getStream\<close> returns when the random value is already a handle of the
  table: it gets as far as the insertion whenever the name resolves and the file or the
  archive entry opens, and there it throws.\<close>

lemma getStream_collision_regular:
  assumes "openStreams s rnd \<noteq> None" and "findFileRecord s name = Some (p, fr)"
    and "fileType fr = RegularFile" and "fopen w (filePath fr) = (Some f, w1)"
  shows "getStream s w rnd name = (Inl std_exception, s, w1)"
  using assms by (simp add: getStream_def insertStream_def)

lemma getStream_collision_archive:
  assumes "openStreams s rnd \<noteq> None" and "findFileRecord s name = Some (p, fr)"
    and "fileType fr \<noteq> RegularFile" and "unzOpen w (zipFilePath fr) = (Some z, w1)"
    and "unzGoToFilePos (unz_state w1 z) (zipFilePos fr) = (UNZ_OK (), u1)"
    and "unzOpenCurrentFile u1 = (UNZ_OK (), u2)"
  shows "getStream s w rnd name = (Inl std_exception, s, unz_store w1 z u2)"
  using assms by (cases "fileType fr") (simp_all add: getStream_def insertStream_def)

lemma getStream_nullptr_iff:
  "fst (getStream s w rnd name) = Inr None \<longleftrightarrow>
     (findFileRecord s name = None \<or>
      (\<exists>p fr. findFileRecord s name = Some (p, fr) \<and> fileType fr = RegularFile \<and>
            fst (fopen w (filePath fr)) = None))"
proof (cases "findFileRecord s name")
  case None
  then show ?thesis by (simp add: getStream_def)
next
  case (Some ref)
  obtain p fr where ref: "ref = (p, fr)" by (cases ref)
  have ins: "fst (insertStream sr s w1) \<noteq> Inr None" for sr :: StreamRecord and w1
    by (simp add: insertStream_def)
  show ?thesis
  proof (cases "fileType fr")
    case RegularFile
    obtain fo w1 where fo: "fopen w (filePath fr) = (fo, w1)" by (cases "fopen w (filePath fr)")
    show ?thesis
    proof (cases fo)
      case None
      then show ?thesis using Some ref RegularFile fo by (simp add: getStream_def)
    next
      case (Some f)
      then show ?thesis
        using \<open>findFileRecord s name = Some ref\<close> ref RegularFile fo ins
        by (simp add: getStream_def)
    qed
  next
    case CompressedFile
    then show ?thesis
      using Some ref ins
      by (auto simp: getStream_def Let_def split: prod.splits option.splits unz_result.splits)
  next
    case StoredFile
    then show ?thesis
      using Some ref ins
      by (auto simp: getStream_def Let_def split: prod.splits option.splits unz_result.splits)
  qed
qed

text \<open>
  C7: in every reachable state each open stream is stored under the handle value its
  record holds, so two open streams never share a handle value. A successful
  \<open>getStream\<close> returns the random value as the handle, that handle was not in the
  table before, and the table afterwards is the old one with the new stream added. When
  the random value is already a handle of the table, \<open>getStream\<close> leaves the manager
  unchanged and never returns a handle: it returns no stream exactly when the name
  does not resolve or the regular file does not open (as it does without a collision),
  and in every other case it ends with the exception. In particular, once the file
  or the archive entry is open, the insertion throws, and the table is not
  overwritten.
\<close>

theorem open_stream_handles_unique:
  fixes s :: "'w::len ResourcesManagerImpl"
  assumes "reachable s"
  shows "(openStreams s h1 = Some sr1 \<longrightarrow> openStreams s h2 = Some sr2 \<longrightarrow> h1 \<noteq> h2 \<longrightarrow>
            randomValue sr1 = h1 \<and> randomValue sr2 = h2 \<and> randomValue sr1 \<noteq> randomValue sr2) \<and>
         (getStream s w rnd name = (Inr (Some h), s', w') \<longrightarrow>
            h = rnd \<and> openStreams s h = None \<and>
            (\<exists>sr. randomValue sr = h \<and> openStreams s' = (openStreams s)(h \<mapsto> sr)) \<and>
            reachable s') \<and>
         (openStreams s rnd \<noteq> None \<longrightarrow>
            (fst (getStream s w rnd name) = Inl std_exception \<or>
             fst (getStream s w rnd name) = Inr None) \<and>
            fst (snd (getStream s w rnd name)) = s \<and>
            insertStream (sr\<lparr>randomValue := rnd\<rparr>) s w = (Inl std_exception, s, w) \<and>
            (fst (getStream s w rnd name) = Inr None \<longleftrightarrow>
               (findFileRecord s name = None \<or>
                (\<exists>p fr. findFileRecord s name = Some (p, fr) \<and> fileType fr = RegularFile \<and>
                      fst (fopen w (filePath fr)) = None))) \<and>
            (findFileRecord s name = Some (p, fr) \<longrightarrow> fileType fr = RegularFile \<longrightarrow>
               fopen w (filePath fr) = (Some f, w1) \<longrightarrow>
               getStream s w rnd name = (Inl std_exception, s, w1)) \<and>
            (findFileRecord s name = Some (p, fr) \<longrightarrow> fileType fr \<noteq> RegularFile \<longrightarrow>
               unzOpen w (zipFilePath fr) = (Some z, w1) \<longrightarrow>
               unzGoToFilePos (unz_state w1 z) (zipFilePos fr) = (UNZ_OK (), u1) \<longrightarrow>
               unzOpenCurrentFile u1 = (UNZ_OK (), u2) \<longrightarrow>
               getStream s w rnd name = (Inl std_exception, s, unz_store w1 z u2)))"
proof (intro conjI impI)
  assume a: "openStreams s h1 = Some sr1" "openStreams s h2 = Some sr2" "h1 \<noteq> h2"
  from reachable_handles_consistent[OF assms] a(1,2)
  show "randomValue sr1 = h1" and "randomValue sr2 = h2"
    by (auto simp: handles_consistent_def)
  with a(3) show "randomValue sr1 \<noteq> randomValue sr2" by simp
next
  assume g: "getStream s w rnd name = (Inr (Some h), s', w')"
  from getStream_cases[OF g]
  show "h = rnd" and "openStreams s h = None"
    and "\<exists>sr. randomValue sr = h \<and> openStreams s' = (openStreams s)(h \<mapsto> sr)"
    by auto
  have "reachable (fst (snd (getStream s w rnd name)))"
    using assms by (rule r_getStream)
  then show "reachable s'" by (simp add: g)
next
  assume c: "openStreams s rnd \<noteq> None"
  obtain res s' w' where g: "getStream s w rnd name = (res, s', w')"
    by (cases "getStream s w rnd name") auto
  from getStream_cases[OF g] c
  show "fst (getStream s w rnd name) = Inl std_exception \<or> fst (getStream s w rnd name) = Inr None"
    and "fst (snd (getStream s w rnd name)) = s"
    by (auto simp: g)
  show "insertStream (sr\<lparr>randomValue := rnd\<rparr>) s w = (Inl std_exception, s, w)"
    using c by (simp add: insertStream_def)
  show "fst (getStream s w rnd name) = Inr None \<longleftrightarrow>
               (findFileRecord s name = None \<or>
                (\<exists>p fr. findFileRecord s name = Some (p, fr) \<and> fileType fr = RegularFile \<and>
                      fst (fopen w (filePath fr)) = None))"
    by (rule getStream_nullptr_iff)
next
  assume "openStreams s rnd \<noteq> None" "findFileRecord s name = Some (p, fr)"
    "fileType fr = RegularFile" "fopen w (filePath fr) = (Some f, w1)"
  then show "getStream s w rnd name = (Inl std_exception, s, w1)"
    by (rule getStream_collision_regular)
next
  assume "openStreams s rnd \<noteq> None" "findFileRecord s name = Some (p, fr)"
    "fileType fr \<noteq> RegularFile" "unzOpen w (zipFilePath fr) = (Some z, w1)"
    "unzGoToFilePos (unz_state w1 z) (zipFilePos fr) = (UNZ_OK (), u1)"
    "unzOpenCurrentFile u1 = (UNZ_OK (), u2)"
  then show "getStream s w rnd name = (Inl std_exception, s, unz_store w1 z u2)"
    by (rule getStream_collision_archive)
qed

text \<open>The witness of C7: two streams are open under 7 and 9; the random value 11 gives
  a new stream; with the random value 7 the file is opened and the insertion throws,
  the manager is unchanged.\<close>

theorem open_stream_handles_unique_witness:
  "reachable demo_two_streams \<and>
   map_option randomValue (openStreams demo_two_streams 7) = Some 7 \<and>
   map_option randomValue (openStreams demo_two_streams 9) = Some 9 \<and>
   openStreams demo_two_streams 11 = None \<and>
   fst (getStream demo_two_streams demo_world 11 ''a.txt'') = Inr (Some 11) \<and>
   openStreams (fst (snd (getStream demo_two_streams demo_world 11 ''a.txt''))) 11 \<noteq> None \<and>
   map_option (fileType \<circ> snd) (findFileRecord demo_two_streams ''a.txt'') = Some RegularFile \<and>
   fst (fopen demo_world ''root/a.txt'') = Some 1 \<and>
   getStream demo_two_streams demo_world 7 ''a.txt''
     = (Inl std_exception, demo_two_streams, snd (fopen demo_world ''root/a.txt''))"
proof -
  obtain sr7 where sr7: "openStreams demo_two_streams 7 = Some sr7"
    by (cases "openStreams demo_two_streams 7") (simp_all, code_simp)
  obtain sr9 where sr9: "openStreams demo_two_streams 9 = Some sr9"
    by (cases "openStreams demo_two_streams 9") (simp_all, code_simp)
  have ok: "fst (getStream demo_two_streams demo_world 11 ''a.txt'') = Inr (Some 11)"
    by code_simp
  have "findFileRecord demo_two_streams ''a.txt'' \<noteq> None" by code_simp
  then obtain p fr where fr: "findFileRecord demo_two_streams ''a.txt'' = Some (p, fr)"
    by (cases "findFileRecord demo_two_streams ''a.txt''") auto
  have ft: "map_option (fileType \<circ> snd) (findFileRecord demo_two_streams ''a.txt'') = Some RegularFile"
    and fp: "map_option (filePath \<circ> snd) (findFileRecord demo_two_streams ''a.txt'') = Some ''root/a.txt''"
    and fo: "fst (fopen demo_world ''root/a.txt'') = Some 1"
    by code_simp+
  from ft fp fr have fr': "fileType fr = RegularFile" "filePath fr = ''root/a.txt''" by simp_all
  have fo': "fopen demo_world (filePath fr) = (Some 1, snd (fopen demo_world ''root/a.txt''))"
    using fo fr'(2) by (metis prod.collapse)
  let ?g = "getStream demo_two_streams demo_world 11 ''a.txt''"
  have g: "?g = (Inr (Some 11), fst (snd ?g), snd (snd ?g))"
    using ok by (metis prod.collapse)
  note A = open_stream_handles_unique[OF reachable_demo_two_streams,
      of 7 sr7 9 sr9 demo_world 11 "''a.txt''" 11 "fst (snd ?g)" "snd (snd ?g)" sr7]
  note B = open_stream_handles_unique[OF reachable_demo_two_streams,
      of 7 sr7 9 sr9 demo_world 7 "''a.txt''" 7 demo_two_streams demo_world sr7 p fr 1
         "snd (fopen demo_world ''root/a.txt'')"]
  from A sr7 sr9 have r: "randomValue sr7 = 7" "randomValue sr9 = 9" by simp_all
  from A g have free: "openStreams demo_two_streams 11 = None"
    by blast
  from A g obtain sr where "openStreams (fst (snd ?g)) = (openStreams demo_two_streams)(11 \<mapsto> sr)"
    by blast
  then have ins: "openStreams (fst (snd ?g)) 11 \<noteq> None"
    by simp
  from B sr7 fr fr'(1) fo'
  have "getStream demo_two_streams demo_world 7 ''a.txt''
     = (Inl std_exception, demo_two_streams, snd (fopen demo_world ''root/a.txt''))"
    by blast
  then show ?thesis
    using reachable_demo_two_streams sr7 sr9 r free ins ok ft fo by simp
qed

subsection \<open>C9: handles that are not open\<close>

text \<open>
  C9: for a handle that is not in the open-stream table, \<open>readData\<close> returns 0 and
  \<open>closeFile\<close> returns 0, and neither changes the manager or the world. When
  \<open>closeFile\<close> returns in a reachable state, the handle is not in the table
  afterwards, so this holds for every handle that has been closed. In particular,
  after a stream is opened, every sequence of reads on it returns, the \<open>closeFile\<close>
  that follows returns, and a further read on the handle returns 0. (For a handle that
  is in the table, \<open>readData\<close> and \<open>closeFile\<close> read through the stream's record
  pointer; they have no defined behaviour exactly when that pointer dangles, which is
  not the case of this claim.)
\<close>

theorem absent_handle_is_benign:
  fixes s :: "'w::len ResourcesManagerImpl"
  shows "(openStreams s h = None \<longrightarrow>
            readData_handle s w h n = Returns (0, w) \<and> closeFile s w h = Returns (0, s, w)) \<and>
         (reachable s \<longrightarrow> closeFile s w h = Returns (r1, s1, w1) \<longrightarrow>
            openStreams s1 h = None \<and> readData_handle s1 w1 h n = Returns (0, w1) \<and>
            closeFile s1 w1 h = Returns (0, s1, w1)) \<and>
         (reachable s \<longrightarrow> getStream s w rnd name = (Inr (Some h), s', w') \<longrightarrow>
            openStreams s' h \<noteq> None \<and>
            (\<exists>w'' r2 s2 w2.
               read_many s' h sizes w' = Returns w'' \<and>
               closeFile s' w'' h = Returns (r2, s2, w2) \<and>
               openStreams s2 h = None \<and>
               readData_handle s2 w2 h n = Returns (0, w2) \<and>
               closeFile s2 w2 h = Returns (0, s2, w2))) \<and>
         (readData_handle s w h n = Undefined_behaviour \<longleftrightarrow>
            (\<exists>sr. openStreams s h = Some sr \<and> deref s (fileRecord sr) = None)) \<and>
         (closeFile s w h = Undefined_behaviour \<longleftrightarrow>
            (\<exists>sr. openStreams s h = Some sr \<and> deref s (fileRecord sr) = None))"
proof (intro conjI impI)
  assume "openStreams s h = None"
  then show "readData_handle s w h n = Returns (0, w)" and "closeFile s w h = Returns (0, s, w)"
    by (simp_all add: readData_handle_absent closeFile_absent)
next
  assume re: "reachable s" and c: "closeFile s w h = Returns (r1, s1, w1)"
  show gone: "openStreams s1 h = None"
    using reachable_handles_consistent[OF re] c by (rule closeFile_removes)
  then show "readData_handle s1 w1 h n = Returns (0, w1)"
    and "closeFile s1 w1 h = Returns (0, s1, w1)"
    by (simp_all add: readData_handle_absent closeFile_absent)
next
  assume re: "reachable s" and g: "getStream s w rnd name = (Inr (Some h), s', w')"
  have "reachable (fst (snd (getStream s w rnd name)))" using re by (rule r_getStream)
  then have re': "reachable s'" by (simp add: g)
  from getStream_cases[OF g] show "openStreams s' h \<noteq> None" by auto
  have v: "stream_valid s' h" using g by (rule getStream_stream_valid)
  from read_many_returns[OF v] obtain w'' where rm: "read_many s' h sizes w' = Returns w''"
    by blast
  from closeFile_returns[OF v] obtain r2 s2 w2 where c: "closeFile s' w'' h = Returns (r2, s2, w2)"
    by blast
  have gone: "openStreams s2 h = None"
    using reachable_handles_consistent[OF re'] c by (rule closeFile_removes)
  then have "readData_handle s2 w2 h n = Returns (0, w2)"
    and "closeFile s2 w2 h = Returns (0, s2, w2)"
    by (simp_all add: readData_handle_absent closeFile_absent)
  with rm c gone
  show "\<exists>w'' r2 s2 w2.
               read_many s' h sizes w' = Returns w'' \<and>
               closeFile s' w'' h = Returns (r2, s2, w2) \<and>
               openStreams s2 h = None \<and>
               readData_handle s2 w2 h n = Returns (0, w2) \<and>
               closeFile s2 w2 h = Returns (0, s2, w2)"
    by blast
next
  show "readData_handle s w h n = Undefined_behaviour \<longleftrightarrow>
            (\<exists>sr. openStreams s h = Some sr \<and> deref s (fileRecord sr) = None)"
    by (rule readData_handle_undefined_iff)
next
  show "closeFile s w h = Undefined_behaviour \<longleftrightarrow>
            (\<exists>sr. openStreams s h = Some sr \<and> deref s (fileRecord sr) = None)"
    by (rule closeFile_undefined_iff)
qed

text \<open>The witness of C9: the file of five bytes is opened, read to its end in three
  reads (3, 2 and 0 bytes) and closed.\<close>

theorem absent_handle_is_benign_witness:
  "reachable demo_indexed \<and>
   openStreams demo_indexed 7 = None \<and>
   readData_handle demo_indexed demo_world 7 3 = Returns (0, demo_world) \<and>
   closeFile demo_indexed demo_world 7 = Returns (0, demo_indexed, demo_world) \<and>
   getStream demo_indexed demo_world 7 ''a.txt''
     = (Inr (Some 7), demo_streaming, demo_streaming_world) \<and>
   map_behaviour fst (readData_handle demo_streaming demo_streaming_world 7 3) = Returns 3 \<and>
   read_many demo_streaming 7 [3, 3, 3] demo_streaming_world = Returns demo_read_world \<and>
   map_option file_pos (open_FILEs demo_read_world 1) = Some 5 \<and>
   map_behaviour fst (readData_handle demo_streaming demo_read_world 7 3) = Returns 0 \<and>
   openStreams demo_streaming 7 \<noteq> None \<and>
   closeFile demo_streaming demo_read_world 7 = Returns (0, demo_closed, demo_closed_world) \<and>
   openStreams demo_closed 7 = None \<and>
   readData_handle demo_closed demo_closed_world 7 3 = Returns (0, demo_closed_world) \<and>
   closeFile demo_closed demo_closed_world 7 = Returns (0, demo_closed, demo_closed_world)"
proof -
  have re: "reachable demo_indexed"
    unfolding demo_indexed_def by (intro reachable.intros)
  have absent: "openStreams demo_indexed 7 = None"
    by (simp add: demo_indexed_streams)
  have g: "getStream demo_indexed demo_world 7 ''a.txt''
             = (Inr (Some 7), demo_streaming, demo_streaming_world)"
    by (simp add: demo_streaming_def demo_streaming_world_def demo_getStream)
  have reads: "map_behaviour fst (readData_handle demo_streaming demo_streaming_world 7 3) = Returns 3"
    "map_option file_pos (open_FILEs demo_read_world 1) = Some 5"
    "map_behaviour fst (readData_handle demo_streaming demo_read_world 7 3) = Returns 0"
    "map_behaviour fst (closeFile demo_streaming demo_read_world 7) = Returns 0"
    by code_simp+
  note T = absent_handle_is_benign[of demo_indexed 7 demo_world 3 0 demo_indexed demo_world
      7 "''a.txt''" demo_streaming demo_streaming_world "[3, 3, 3]"]
  from T absent have a: "readData_handle demo_indexed demo_world 7 3 = Returns (0, demo_world)"
    "closeFile demo_indexed demo_world 7 = Returns (0, demo_indexed, demo_world)"
    by blast+
  from T re g obtain w'' r2 s2 w2 where
    open7: "openStreams demo_streaming 7 \<noteq> None"
    and rm: "read_many demo_streaming 7 [3, 3, 3] demo_streaming_world = Returns w''"
    and c: "closeFile demo_streaming w'' 7 = Returns (r2, s2, w2)"
    and after: "openStreams s2 7 = None" "readData_handle s2 w2 7 3 = Returns (0, w2)"
      "closeFile s2 w2 7 = Returns (0, s2, w2)"
    by blast
  have w'': "w'' = demo_read_world" using rm by (simp add: demo_read_world_def)
  have s2: "s2 = demo_closed" and w2: "w2 = demo_closed_world"
    using c unfolding w'' by (simp_all add: demo_closed_def demo_closed_world_def)
  have r2: "r2 = 0" using c reads(4) unfolding w'' by simp
  show ?thesis
    using re absent a g reads(1-3) open7 rm c after unfolding w'' s2 w2 r2 by simp
qed

subsection \<open>C4: duplicate entry names in an archive\<close>

text \<open>
  C4 at a failing input: the archive lists the raw name \<open>A.png\<close> twice and is added
  to a new manager. The duplicate test looks the raw name up among the keys of the
  record store, which are normalised (here \<open>a.png\<close>), so it finds nothing:
  \<open>addArchive\<close> returns normally and both entries are stored.
\<close>

theorem addArchive_duplicate_failing_input:
  "fst (addArchive ''upper.zip'' [] new_manager zip_world) = Inr () \<and>
   map filename (records_at (fst (snd (addArchive ''upper.zip'' [] new_manager zip_world))) ''a.png'')
     = [''A.png'', ''A.png'']"
  by code_simp

subsection \<open>C5: the archive handle on the error paths\<close>

lemma unz_store_open:
  "open_unzFiles w z \<noteq> None \<Longrightarrow> open_unzFiles (unz_store w z u) z \<noteq> None"
  by (simp add: unz_store_def)

text \<open>
  Whatever \<open>addArchive\<close> does after the archive is opened, and however it
  ends, the handle that it opened is still open afterwards.
\<close>

theorem addArchive_leaves_handle_open:
  assumes "unzOpen w archivePath = (Some z, w1)"
  shows "open_unzFiles (snd (snd (addArchive archivePath rootFolder s w))) z \<noteq> None"
proof -
  have o: "open_unzFiles w1 z \<noteq> None"
    using assms by (auto simp: unzOpen_def split: option.splits)
  then have st: "open_unzFiles (unz_store w1 z u) z \<noteq> None" for u
    by (rule unz_store_open)
  obtain r u where f: "unzGoToFirstFile2 (unz_state w1 z) = (r, u)"
    by (cases "unzGoToFirstFile2 (unz_state w1 z)")
  show ?thesis
  proof (cases r)
    case (UNZ_OK entry)
    obtain res s' u' where l: "addArchive_loop archivePath rootFolder entry u s = (res, s', u')"
      by (cases "addArchive_loop archivePath rootFolder entry u s")
    have "snd (snd (addArchive archivePath rootFolder s w)) = unz_store w1 z u'"
      using assms f UNZ_OK l by (cases res) (simp_all add: addArchive_def addArchive_catch_def)
    then show ?thesis using st by simp
  next
    case UNZ_END_OF_LIST_OF_FILE
    then have "snd (snd (addArchive archivePath rootFolder s w)) = unz_store w1 z u"
      using assms f by (simp add: addArchive_def addArchive_catch_def)
    then show ?thesis using st by simp
  next
    case UNZ_ERROR
    then have "snd (snd (addArchive archivePath rootFolder s w)) = unz_store w1 z u"
      using assms f by (simp add: addArchive_def addArchive_catch_def)
    then show ?thesis using st by simp
  qed
qed

text \<open>An instance: \<open>upper.zip\<close>, whose indexing succeeds.\<close>

theorem addArchive_leaves_handle_open_witness:
  "unzOpen zip_world ''upper.zip'' = (Some 1, snd (unzOpen zip_world ''upper.zip'')) \<and>
   fst (addArchive ''upper.zip'' [] new_manager zip_world) = Inr () \<and>
   open_unzFiles (snd (snd (addArchive ''upper.zip'' [] new_manager zip_world))) 1 \<noteq> None"
proof -
  have "fst (unzOpen zip_world ''upper.zip'') = Some 1" by code_simp
  then have o: "unzOpen zip_world ''upper.zip'' = (Some 1, snd (unzOpen zip_world ''upper.zip''))"
    by (metis prod.collapse)
  have ok: "fst (addArchive ''upper.zip'' [] new_manager zip_world) = Inr ()" by code_simp
  from addArchive_leaves_handle_open[OF o, of "[]" new_manager] o ok show ?thesis by simp
qed

text \<open>
  C5 at three failing inputs, each added to a new manager in a world where the next
  handle is 1: an archive that lists \<open>a.png\<close> twice (the duplicate is detected), an
  archive without entries (the seek to the first entry fails), and an archive whose
  second directory record cannot be read (the step to the next entry fails). Each call
  ends with the exception, and the handle 1 that it opened is still open afterwards.
\<close>

theorem addArchive_handle_failing_input:
  "fst (unzOpen zip_world ''lower.zip'') = Some 1 \<and>
   fst (addArchive ''lower.zip'' [] new_manager zip_world) = Inl std_exception \<and>
   open_unzFiles (snd (snd (addArchive ''lower.zip'' [] new_manager zip_world))) 1 \<noteq> None \<and>
   fst (unzOpen zip_world ''empty.zip'') = Some 1 \<and>
   fst (addArchive ''empty.zip'' [] new_manager zip_world) = Inl std_exception \<and>
   open_unzFiles (snd (snd (addArchive ''empty.zip'' [] new_manager zip_world))) 1 \<noteq> None \<and>
   fst (unzOpen zip_world ''broken.zip'') = Some 1 \<and>
   fst (addArchive ''broken.zip'' [] new_manager zip_world) = Inl std_exception \<and>
   open_unzFiles (snd (snd (addArchive ''broken.zip'' [] new_manager zip_world))) 1 \<noteq> None"
  by code_simp

subsection \<open>C8: what reset clears\<close>

text \<open>
  \<open>reset()\<close> returns every field of the manager to its initial value (record store,
  overlay tables, current language, enabled categories, root-folder list, trace flag
  and search configuration, with the search roots back at the one empty root), except
  the open-stream table, which it does not assign. (The allocator's next address is
  no field of the manager.)
\<close>

theorem reset_clears_all_but_open_streams:
  "reset s = ResourcesManager\<lparr>openStreams := openStreams s, next_address := next_address s\<rparr>"
  by (simp add: reset_def ResourcesManager_def)

text \<open>
  After \<open>reset()\<close> every stream that was open is still in the table, and its record
  pointer dangles, because the vectors of the record store are gone: \<open>readData\<close> and
  \<open>closeFile\<close> on any such handle have no defined behaviour.
\<close>

theorem reset_leaves_streams_dangling:
  "openStreams (reset s) = openStreams s \<and>
   deref (reset s) p = None \<and>
   readData_handle (reset s) w h n =
     (if openStreams s h = None then Returns (0, w) else Undefined_behaviour) \<and>
   closeFile (reset s) w h =
     (if openStreams s h = None then Returns (0, reset s, w) else Undefined_behaviour)"
proof -
  have o: "openStreams (reset s) = openStreams s" by (simp add: reset_def)
  have d: "deref (reset s) q = None" for q by (simp add: deref_def reset_def)
  have "readData_handle (reset s) w h n =
     (if openStreams s h = None then Returns (0, w) else Undefined_behaviour)"
    using d by (auto simp: readData_handle_def getStreamRecord_def o split: option.splits)
  moreover have "closeFile (reset s) w h =
     (if openStreams s h = None then Returns (0, reset s, w) else Undefined_behaviour)"
    using d by (auto simp: closeFile_def getStreamRecord_def o split: option.splits)
  ultimately show ?thesis using o d by simp
qed

text \<open>
  C8 at a failing input: the reachable state with one stream open on \<open>a.txt\<close>, under
  the handle 7 and with the \<open>FILE\<close> 1; its record pointer points to the record of
  \<open>a.txt\<close>. The initial state has no open stream. After \<open>reset()\<close> the stream is
  still in the table and its \<open>FILE\<close> is still open, while the record store is empty:
  the name no longer resolves, the stream's record pointer dangles, and \<open>readData\<close>
  and \<open>closeFile\<close> on the handle have no defined behaviour. The state is not the
  initial one.
\<close>

theorem reset_open_streams_failing_input:
  "reachable demo_streaming \<and>
   openStreams (ResourcesManager :: 64 ResourcesManagerImpl) 7 = None \<and>
   openStreams demo_streaming 7
     = Some \<lparr>fileRecord = a_txt_ptr, randomValue = 7, file' = Some 1, zipFile = None\<rparr> \<and>
   deref demo_streaming a_txt_ptr = Some a_txt \<and>
   openStreams (reset demo_streaming) 7 = openStreams demo_streaming 7 \<and>
   open_FILEs demo_streaming_world 1 \<noteq> None \<and>
   map filename (records_at demo_streaming ''a.txt'') = [''a.txt''] \<and>
   records_at (reset demo_streaming) ''a.txt'' = [] \<and>
   \<not> exists (reset demo_streaming) ''a.txt'' \<and>
   deref (reset demo_streaming) a_txt_ptr = None \<and>
   readData_handle (reset demo_streaming) demo_streaming_world 7 3 = Undefined_behaviour \<and>
   closeFile (reset demo_streaming) demo_streaming_world 7 = Undefined_behaviour \<and>
   reset demo_streaming \<noteq> ResourcesManager"
proof -
  have a: "openStreams (ResourcesManager :: 64 ResourcesManagerImpl) 7 = None"
    by (simp add: ResourcesManager_def reset_def)
  have b: "openStreams demo_streaming 7
     = Some \<lparr>fileRecord = a_txt_ptr, randomValue = 7, file' = Some 1, zipFile = None\<rparr>"
    by (simp add: demo_streaming_streams)
  have c: "openStreams (reset demo_streaming) 7 = openStreams demo_streaming 7"
    by (simp add: reset_def)
  have d: "deref demo_streaming a_txt_ptr = Some a_txt"
    and e: "open_FILEs demo_streaming_world 1 \<noteq> None"
    and f: "map filename (records_at demo_streaming ''a.txt'') = [''a.txt'']"
    by code_simp+
  have g: "records_at (reset demo_streaming) ''a.txt'' = []"
    by (simp add: reset_def records_at_def)
  have h: "\<not> exists (reset demo_streaming) ''a.txt''"
    by (simp add: exists_def findFileRecord_def reset_def path_eval)
  have i: "deref (reset demo_streaming) a_txt_ptr = None"
    by (simp add: deref_def reset_def)
  have j: "readData_handle (reset demo_streaming) demo_streaming_world 7 3 = Undefined_behaviour"
    using b c i by (simp add: readData_handle_def getStreamRecord_def)
  have k: "closeFile (reset demo_streaming) demo_streaming_world 7 = Undefined_behaviour"
    using b c i by (simp add: closeFile_def getStreamRecord_def)
  from a b c have "openStreams (reset demo_streaming) \<noteq> openStreams (ResourcesManager :: 64 ResourcesManagerImpl)"
    by (metis option.distinct(1))
  then have "reset demo_streaming \<noteq> ResourcesManager"
    by auto
  then show ?thesis
    using reachable_demo_streaming a b c d e f g h i j k by simp
qed

subsection \<open>Streams and a record store that grows\<close>

text \<open>
  A stream's record pointer also dangles when the vector that it points into moves to
  a new buffer. With the stream on \<open>a.txt\<close> open, a second root folder with a file
  \<open>a.txt\<close> is added: the vector under the key \<open>a.txt\<close> has one element and room
  for one, so \<open>push_back\<close> moves it from the buffer 1 to the buffer 2. The stream
  still points into the buffer 1, and \<open>readData\<close> and \<open>closeFile\<close> on its handle
  have no defined behaviour.
\<close>

theorem stream_after_reallocation:
  "reachable demo_grown \<and>
   map_option buffer (filenameToRecordMap demo_streaming ''a.txt'') = Some 1 \<and>
   map_option capacity (filenameToRecordMap demo_streaming ''a.txt'') = Some 1 \<and>
   map_option buffer (filenameToRecordMap demo_grown ''a.txt'') = Some 2 \<and>
   map_option capacity (filenameToRecordMap demo_grown ''a.txt'') = Some 2 \<and>
   map filePath (records_at demo_grown ''a.txt'') = [''root/a.txt'', ''more/a.txt''] \<and>
   map_option fileRecord (openStreams demo_grown 7) = Some a_txt_ptr \<and>
   buffer_address a_txt_ptr = 1 \<and>
   deref demo_grown a_txt_ptr = None \<and>
   readData_handle demo_grown demo_streaming_world 7 3 = Undefined_behaviour \<and>
   closeFile demo_grown demo_streaming_world 7 = Undefined_behaviour"
proof -
  have "reachable demo_grown"
    unfolding demo_grown_def using reachable_demo_streaming by (rule r_addRootFolder)
  moreover have "map_option buffer (filenameToRecordMap demo_streaming ''a.txt'') = Some 1"
    and "map_option capacity (filenameToRecordMap demo_streaming ''a.txt'') = Some 1"
    and "map_option buffer (filenameToRecordMap demo_grown ''a.txt'') = Some 2"
    and "map_option capacity (filenameToRecordMap demo_grown ''a.txt'') = Some 2"
    and "map filePath (records_at demo_grown ''a.txt'') = [''root/a.txt'', ''more/a.txt'']"
    and "map_option fileRecord (openStreams demo_grown 7) = Some a_txt_ptr"
    and "buffer_address a_txt_ptr = 1"
    and "deref demo_grown a_txt_ptr = None"
    by code_simp+
  moreover have "(case readData_handle demo_grown demo_streaming_world 7 3 of
                    Undefined_behaviour \<Rightarrow> True | Returns x \<Rightarrow> False)"
    and "(case closeFile demo_grown demo_streaming_world 7 of
                    Undefined_behaviour \<Rightarrow> True | Returns x \<Rightarrow> False)"
    by code_simp+
  then have "readData_handle demo_grown demo_streaming_world 7 3 = Undefined_behaviour"
    and "closeFile demo_grown demo_streaming_world 7 = Undefined_behaviour"
    by (simp_all split: behaviour.splits)
  ultimately show ?thesis by simp
qed

end
